theory Spec2Isabelle
  imports Main "HOL-Library.Sublist"
begin

section \<open>Values, documents and exceptions\<close>

text \<open>
  The program is \<^verbatim>\<open>src/rag_processor.py\<close>. Python values that reach
  \<^verbatim>\<open>adjust_string\<close> are either \<^verbatim>\<open>str\<close> or something else (metadata values
  produced by loaders may be integers, booleans or \<^verbatim>\<open>None\<close>).
\<close>

datatype pyval = Str string | IntV int | BoolV bool | NoneV

text \<open>
  A langchain \<^verbatim>\<open>Document\<close>: \<^verbatim>\<open>page_content\<close> is a \<^verbatim>\<open>str\<close>, \<^verbatim>\<open>metadata\<close> a
  \<^verbatim>\<open>dict\<close>, kept as an association list in insertion order.
\<close>

record document =
  page_content :: string
  metadata :: "(string \<times> pyval) list"

text \<open>
  An instance of \<^verbatim>\<open>Exception\<close>, identified by the text \<^verbatim>\<open>str(e)\<close>. Signals that
  derive from \<^verbatim>\<open>BaseException\<close> only (\<^verbatim>\<open>KeyboardInterrupt\<close>, \<^verbatim>\<open>SystemExit\<close>) are
  not values of this type.
\<close>

datatype exn = Exn string

section \<open>Standard-library text functions\<close>

text \<open>\<^verbatim>\<open>str.startswith(prefix)\<close>.\<close>

definition startswith :: "string \<Rightarrow> string \<Rightarrow> bool" where
  "startswith s p = (take (length p) s = p)"

text \<open>\<^verbatim>\<open>sep.join(parts)\<close>.\<close>

fun join :: "string \<Rightarrow> string list \<Rightarrow> string" where
  "join sep [] = []"
| "join sep [x] = x"
| "join sep (x # y # ys) = x @ sep @ join sep (y # ys)"

text \<open>
  \<^verbatim>\<open>p.rfind(c)\<close> for a single character: the index of the last occurrence, or
  \<^verbatim>\<open>-1\<close>.
\<close>

fun rfind_from :: "char \<Rightarrow> string \<Rightarrow> int \<Rightarrow> int \<Rightarrow> int" where
  "rfind_from c [] i found = found"
| "rfind_from c (x # xs) i found = rfind_from c xs (i + 1) (if x = c then i else found)"

definition rfind :: "string \<Rightarrow> char \<Rightarrow> int" where
  "rfind p c = rfind_from c p 0 (-1)"

text \<open>
  \<^verbatim>\<open>genericpath._splitext(p, sep, altsep, extsep)\<close>, which both
  \<^verbatim>\<open>posixpath.splitext\<close> and \<^verbatim>\<open>ntpath.splitext\<close> call:
  \<^verbatim>\<open>
    sepIndex = p.rfind(sep)
    if altsep:
        altsepIndex = p.rfind(altsep)
        sepIndex = max(sepIndex, altsepIndex)
    dotIndex = p.rfind(extsep)
    if dotIndex > sepIndex:
        filenameIndex = sepIndex + 1
        while filenameIndex < dotIndex:
            if p[filenameIndex:filenameIndex+1] != extsep:
                return p[:dotIndex], p[dotIndex:]
            filenameIndex += 1
    return p, p[:0]
  \<close>
  The loop returns the split at the first character other than the dot between the
  last separator and the last dot (\<open>first_non_extsep\<close> on that slice), and falls
  through when there is none.
\<close>

fun first_non_extsep :: "char \<Rightarrow> string \<Rightarrow> bool" where
  "first_non_extsep extsep [] = False"
| "first_non_extsep extsep (c # cs) = (if c \<noteq> extsep then True else first_non_extsep extsep cs)"

definition splitext_generic :: "string \<Rightarrow> char \<Rightarrow> char option \<Rightarrow> char \<Rightarrow> string \<times> string" where
  "splitext_generic p sep altsep extsep =
     (let sepIndex0 = rfind p sep;
          sepIndex = (case altsep of None \<Rightarrow> sepIndex0
                      | Some a \<Rightarrow> max sepIndex0 (rfind p a));
          dotIndex = rfind p extsep
      in if dotIndex > sepIndex then
           (if first_non_extsep extsep
                 (take (nat (dotIndex - (sepIndex + 1))) (drop (nat (sepIndex + 1)) p))
            then (take (nat dotIndex) p, drop (nat dotIndex) p)
            else (p, []))
         else (p, []))"

text \<open>
  \<^verbatim>\<open>os.path\<close> is \<^verbatim>\<open>ntpath\<close> on Windows and \<^verbatim>\<open>posixpath\<close> elsewhere; the two differ
  here in the separators they pass on.
\<close>

datatype os_path_flavour = Posixpath | Ntpath

fun os_path_splitext :: "os_path_flavour \<Rightarrow> string \<Rightarrow> string \<times> string" where
  "os_path_splitext Posixpath p = splitext_generic p (CHR ''/'') None (CHR ''.'')"
| "os_path_splitext Ntpath p = splitext_generic p (CHR 0x5C) (Some (CHR ''/'')) (CHR ''.'')"

section \<open>The text normalizer\<close>

text \<open>
  The Unicode database and the codecs are interpreter tables; the program reaches them
  through \<^verbatim>\<open>unicodedata.normalize(form, s)\<close>, \<^verbatim>\<open>s.encode(codec, errors)\<close> and
  \<^verbatim>\<open>b.decode(codec)\<close>. They are parameters of the model, together with
  \<^verbatim>\<open>sys.platform\<close>. The bytes decoded are always the ones the same codec has just
  encoded, so decoding is taken as total.
\<close>

datatype normal_form = NFC | NFD | NFKC | NFKD
datatype codec = Cp932 | Utf8
datatype codec_errors = Strict | Ignore | Replace

record pylib =
  sys_platform :: string
  unicodedata_normalize :: "normal_form \<Rightarrow> string \<Rightarrow> string"
  str_encode :: "codec \<Rightarrow> codec_errors \<Rightarrow> string \<Rightarrow> string"
  bytes_decode :: "codec \<Rightarrow> string \<Rightarrow> string"
  os_path :: os_path_flavour

text \<open>
  \<^verbatim>\<open>
  def adjust_string(s):
      if type(s) is not str:
          return s
      if sys.platform.startswith("win"):
          s = unicodedata.normalize('NFC', s)
          s = s.encode("cp932", "ignore").decode("cp932")
          return s
      return s
  \<close>
\<close>

fun adjust_string :: "pylib \<Rightarrow> pyval \<Rightarrow> pyval" where
  "adjust_string L (Str s) =
     (if startswith (sys_platform L) ''win''
      then (let s1 = unicodedata_normalize L NFC s;
                s2 = bytes_decode L Cp932 (str_encode L Cp932 Ignore s1)
            in Str s2)
      else Str s)"
| "adjust_string L v = v"

section \<open>The outside world and the run state\<close>

text \<open>
  The filesystem and the remote services are a world of type \<open>'w\<close>. Objects handed out
  by the libraries (the embedding model, the splitter, the vector store, the retriever)
  are opaque values of type \<open>'obj\<close>. A library call that raises returns \<open>Inl e\<close>; a
  call that can change the world returns the new world as well, also when it raises.
\<close>

record 'w os_module =
  os_path_isdir :: "string \<Rightarrow> 'w \<Rightarrow> bool"
  os_path_exists :: "string \<Rightarrow> 'w \<Rightarrow> bool"
  os_path_join :: "string \<Rightarrow> string \<Rightarrow> string"
  os_listdir :: "string \<Rightarrow> 'w \<Rightarrow> exn + string list"
  os_makedirs :: "string \<Rightarrow> 'w \<Rightarrow> (exn + unit) \<times> 'w"
  shutil_rmtree :: "string \<Rightarrow> 'w \<Rightarrow> (exn + unit) \<times> 'w"

record ('w, 'obj) langchain =
  WebBaseLoader_load :: "string \<Rightarrow> 'w \<Rightarrow> exn + document list"
  OpenAIEmbeddings :: "'w \<Rightarrow> exn + 'obj"
  CharacterTextSplitter :: "int \<Rightarrow> int \<Rightarrow> string \<Rightarrow> exn + 'obj"
  split_documents :: "'obj \<Rightarrow> document list \<Rightarrow> exn + document list"
  Chroma_from_documents :: "document list \<Rightarrow> 'obj \<Rightarrow> string \<Rightarrow> 'w \<Rightarrow> (exn + 'obj) \<times> 'w"
  Chroma_persist :: "'obj \<Rightarrow> 'w \<Rightarrow> (exn + unit) \<times> 'w"
  as_retriever :: "'obj \<Rightarrow> int \<Rightarrow> exn + 'obj"

text \<open>
  The module \<^verbatim>\<open>constants\<close> (imported as \<^verbatim>\<open>ct\<close>) is not part of the sources at hand;
  its values are parameters. An entry of \<^verbatim>\<open>SUPPORTED_EXTENSIONS\<close> maps an extension to
  a loader class; the model keeps, for each, what \<^verbatim>\<open>cls(path).load()\<close> yields.
\<close>

record 'w constants =
  CHUNK_SIZE :: int
  CHUNK_OVERLAP :: int
  SEARCH_K :: int
  RAG_TOP_FOLDER_PATH :: string
  WEB_URL_LOAD_TARGETS :: "string list"
  SUPPORTED_EXTENSIONS :: "string \<rightharpoonup> (string \<Rightarrow> 'w \<Rightarrow> exn + document list)"

record ('w, 'obj) env =
  lib :: pylib
  os :: "'w os_module"
  lc :: "('w, 'obj) langchain"
  ct :: "'w constants"
  recursion_limit :: nat

text \<open>
  What a run leaves behind: the world, the log records written through the logger, and
  the library calls made, in the order they were made. Calls that only read the
  filesystem (\<^verbatim>\<open>isdir\<close>, \<^verbatim>\<open>exists\<close>, \<^verbatim>\<open>listdir\<close>) are not recorded.
\<close>

datatype level = INFO | ERROR

datatype message =
    Msg_persist_directory string
  | Msg_documents_loaded nat
  | Msg_documents_after_split nat
  | Msg_store_deleted
  | Msg_store_persisted
  | Msg_saved_files "string list"
  | Msg_store_save_failed
  | Msg_store_creation_error exn
  | Msg_rag_completed
  | Msg_rag_error exn

datatype call =
    Call_makedirs string
  | Call_rmtree string
  | Call_load string
  | Call_web_load string
  | Call_OpenAIEmbeddings
  | Call_CharacterTextSplitter int int string
  | Call_split_documents "document list"
  | Call_from_documents "document list" string
  | Call_persist
  | Call_as_retriever int

record 'w state =
  world :: 'w
  log :: "(level \<times> message) list"
  calls :: "call list"

type_synonym ('a, 'w) action = "'w state \<Rightarrow> (exn + 'a) \<times> 'w state"

definition returnE :: "'a \<Rightarrow> ('a, 'w) action" where
  "returnE a s = (Inr a, s)"

definition raiseE :: "exn \<Rightarrow> ('a, 'w) action" where
  "raiseE e s = (Inl e, s)"

definition bindE :: "('a, 'w) action \<Rightarrow> ('a \<Rightarrow> ('b, 'w) action) \<Rightarrow> ('b, 'w) action" where
  "bindE m f s = (case m s of (Inl e, s') \<Rightarrow> (Inl e, s') | (Inr a, s') \<Rightarrow> f a s')"

text \<open>\<^verbatim>\<open>try: m  except Exception as e: h(e)\<close>.\<close>

definition try_except :: "('a, 'w) action \<Rightarrow> (exn \<Rightarrow> ('a, 'w) action) \<Rightarrow> ('a, 'w) action" where
  "try_except m h s = (case m s of (Inl e, s') \<Rightarrow> h e s' | (Inr a, s') \<Rightarrow> (Inr a, s'))"

definition logger_info :: "message \<Rightarrow> (unit, 'w) action" where
  "logger_info m s = (Inr (), s\<lparr>log := log s @ [(INFO, m)]\<rparr>)"

definition logger_error :: "message \<Rightarrow> (unit, 'w) action" where
  "logger_error m s = (Inr (), s\<lparr>log := log s @ [(ERROR, m)]\<rparr>)"

text \<open>A call that reads the world, and a call that may change it.\<close>

definition reading :: "call \<Rightarrow> ('w \<Rightarrow> exn + 'a) \<Rightarrow> ('a, 'w) action" where
  "reading c f s = (f (world s), s\<lparr>calls := calls s @ [c]\<rparr>)"

definition changing :: "call \<Rightarrow> ('w \<Rightarrow> (exn + 'a) \<times> 'w) \<Rightarrow> ('a, 'w) action" where
  "changing c f s =
     (case f (world s) of (r, w') \<Rightarrow> (r, s\<lparr>world := w', calls := calls s @ [c]\<rparr>))"

definition query :: "('w \<Rightarrow> 'a) \<Rightarrow> ('a, 'w) action" where
  "query f s = (Inr (f (world s)), s)"

definition query_raising :: "('w \<Rightarrow> exn + 'a) \<Rightarrow> ('a, 'w) action" where
  "query_raising f s = (f (world s), s)"

section \<open>Loading the data sources\<close>

text \<open>
  \<^verbatim>\<open>
  def file_load(path, docs_all):
      file_extension = os.path.splitext(path)[1]
      file_name = os.path.basename(path)
      if file_extension in ct.SUPPORTED_EXTENSIONS:
          if file_extension == ".csv":
              loader = ct.SUPPORTED_EXTENSIONS[file_extension](path)
              docs = loader.load()
              combined_text = "\n".join([doc.page_content for doc in docs])
              docs_all.append(Document(page_content=combined_text, metadata={"source": path}))
          else:
              loader = ct.SUPPORTED_EXTENSIONS[file_extension](path)
              docs = loader.load()
              docs_all.extend(docs)
  \<close>
  The list \<^verbatim>\<open>docs_all\<close> is passed in and returned extended. \<^verbatim>\<open>file_name\<close> is not
  used.
\<close>

definition file_load :: "('w, 'obj) env \<Rightarrow> string \<Rightarrow> document list \<Rightarrow> (document list, 'w) action" where
  "file_load E path docs_all =
     (let file_extension = snd (os_path_splitext (os_path (lib E)) path)
      in case SUPPORTED_EXTENSIONS (ct E) file_extension of
           None \<Rightarrow> returnE docs_all
         | Some loader \<Rightarrow>
             if file_extension = ''.csv'' then
               bindE (reading (Call_load path) (loader path)) (\<lambda>docs.
                 let combined_text = join [CHR 0x0A] (map page_content docs)
                 in returnE (docs_all @
                      [\<lparr>page_content = combined_text, metadata = [(''source'', Str path)]\<rparr>]))
             else
               bindE (reading (Call_load path) (loader path)) (\<lambda>docs.
                 returnE (docs_all @ docs)))"

text \<open>A \<^verbatim>\<open>for\<close> loop whose body extends the accumulator and may raise.\<close>

fun for_each :: "('a \<Rightarrow> 'b \<Rightarrow> ('b, 'w) action) \<Rightarrow> 'a list \<Rightarrow> 'b \<Rightarrow> ('b, 'w) action" where
  "for_each body [] acc = returnE acc"
| "for_each body (x # xs) acc = bindE (body x acc) (for_each body xs)"

text \<open>
  \<^verbatim>\<open>
  def recursive_file_check(path, docs_all):
      if os.path.isdir(path):
          files = os.listdir(path)
          for file in files:
              full_path = os.path.join(path, file)
              recursive_file_check(full_path, docs_all)
      else:
          file_load(path, docs_all)
  \<close>
  The first argument is the number of nested calls the interpreter still allows; when it
  is used up the interpreter raises \<^verbatim>\<open>RecursionError\<close>, an \<^verbatim>\<open>Exception\<close>.
\<close>

definition RecursionError :: exn where
  "RecursionError = Exn ''maximum recursion depth exceeded''"

fun recursive_file_check ::
  "nat \<Rightarrow> ('w, 'obj) env \<Rightarrow> string \<Rightarrow> document list \<Rightarrow> (document list, 'w) action" where
  "recursive_file_check 0 E path docs_all = raiseE RecursionError"
| "recursive_file_check (Suc d) E path docs_all =
     bindE (query (os_path_isdir (os E) path)) (\<lambda>is_dir.
       if is_dir then
         bindE (query_raising (os_listdir (os E) path)) (\<lambda>files.
           for_each (\<lambda>file acc. recursive_file_check d E (os_path_join (os E) path file) acc)
             files docs_all)
       else file_load E path docs_all)"

text \<open>
  \<^verbatim>\<open>
  def load_data_sources():
      docs_all = []
      recursive_file_check(ct.RAG_TOP_FOLDER_PATH, docs_all)
      web_docs_all = []
      for web_url in ct.WEB_URL_LOAD_TARGETS:
          loader = WebBaseLoader(web_url)
          web_docs = loader.load()
          web_docs_all.extend(web_docs)
      docs_all.extend(web_docs_all)
      return docs_all
  \<close>
\<close>

definition load_data_sources :: "('w, 'obj) env \<Rightarrow> (document list, 'w) action" where
  "load_data_sources E =
     bindE (recursive_file_check (recursion_limit E) E (RAG_TOP_FOLDER_PATH (ct E)) []) (\<lambda>docs_all.
     bindE (for_each
              (\<lambda>web_url web_docs_all.
                 bindE (reading (Call_web_load web_url) (WebBaseLoader_load (lc E) web_url))
                   (\<lambda>web_docs. returnE (web_docs_all @ web_docs)))
              (WEB_URL_LOAD_TARGETS (ct E)) []) (\<lambda>web_docs_all.
     returnE (docs_all @ web_docs_all)))"

section \<open>The indexing pipeline\<close>

text \<open>
  The loop of lines 54 to 57 rewrites each document in place:
  \<^verbatim>\<open>
      for doc in docs_all:
          doc.page_content = adjust_string(doc.page_content)
          for key in doc.metadata:
              doc.metadata[key] = adjust_string(doc.metadata[key])
  \<close>
  \<open>page_content\<close> is a \<^verbatim>\<open>str\<close>, and \<open>adjust_string\<close> returns a \<^verbatim>\<open>str\<close> for a
  \<^verbatim>\<open>str\<close>; \<open>str_of\<close> reads it back.
\<close>

fun str_of :: "pyval \<Rightarrow> string" where
  "str_of (Str s) = s"
| "str_of v = []"

definition adjust_document :: "pylib \<Rightarrow> document \<Rightarrow> document" where
  "adjust_document L doc =
     doc\<lparr>page_content := str_of (adjust_string L (Str (page_content doc))),
         metadata := map (\<lambda>(key, v). (key, adjust_string L v)) (metadata doc)\<rparr>"

text \<open>
  Lines 43 to 71 of \<^verbatim>\<open>process_rag\<close>, before the \<^verbatim>\<open>try\<close>:
  \<^verbatim>\<open>
      os.makedirs(persist_directory, exist_ok=True)
      logger.info(f"... {persist_directory}")
      docs_all = load_data_sources()
      logger.info(f"... {len(docs_all)}")
      for doc in docs_all: ...
      embeddings = OpenAIEmbeddings()
      text_splitter = CharacterTextSplitter(
          chunk_size=ct.CHUNK_SIZE, chunk_overlap=ct.CHUNK_OVERLAP, separator="\n")
      splitted_docs = text_splitter.split_documents(docs_all)
      logger.info(f"... {len(splitted_docs)}")
  \<close>
  It yields the two values the \<^verbatim>\<open>try\<close> block uses.
\<close>

definition process_rag_prepare ::
  "('w, 'obj) env \<Rightarrow> string \<Rightarrow> ('obj \<times> document list, 'w) action" where
  "process_rag_prepare E persist_directory =
     bindE (changing (Call_makedirs persist_directory) (os_makedirs (os E) persist_directory)) (\<lambda>_.
     bindE (logger_info (Msg_persist_directory persist_directory)) (\<lambda>_.
     bindE (load_data_sources E) (\<lambda>docs_loaded.
     bindE (logger_info (Msg_documents_loaded (length docs_loaded))) (\<lambda>_.
     let docs_all = map (adjust_document (lib E)) docs_loaded in
     bindE (reading Call_OpenAIEmbeddings (OpenAIEmbeddings (lc E))) (\<lambda>embeddings.
     bindE (reading (Call_CharacterTextSplitter (CHUNK_SIZE (ct E)) (CHUNK_OVERLAP (ct E)) [CHR 0x0A])
              (\<lambda>_. CharacterTextSplitter (lc E) (CHUNK_SIZE (ct E)) (CHUNK_OVERLAP (ct E)) [CHR 0x0A]))
           (\<lambda>text_splitter.
     bindE (reading (Call_split_documents docs_all)
              (\<lambda>_. split_documents (lc E) text_splitter docs_all)) (\<lambda>splitted_docs.
     bindE (logger_info (Msg_documents_after_split (length splitted_docs))) (\<lambda>_.
     returnE (embeddings, splitted_docs)))))))))"

text \<open>
  The body of the \<^verbatim>\<open>try\<close>, lines 74 to 100:
  \<^verbatim>\<open>
          if os.path.exists(persist_directory):
              import shutil
              shutil.rmtree(persist_directory)
              os.makedirs(persist_directory, exist_ok=True)
              logger.info("...")
          db = Chroma.from_documents(documents=splitted_docs, embedding=embeddings,
                                     persist_directory=persist_directory)
          db.persist()
          logger.info("...")
          if os.path.exists(persist_directory):
              files = os.listdir(persist_directory)
              logger.info(f"... {files}")
          else:
              logger.error("...")
          return db.as_retriever(search_kwargs={"k": ct.SEARCH_K})
  \<close>
\<close>

definition process_rag_build ::
  "('w, 'obj) env \<Rightarrow> string \<Rightarrow> 'obj \<Rightarrow> document list \<Rightarrow> ('obj, 'w) action" where
  "process_rag_build E persist_directory embeddings splitted_docs =
     bindE (query (os_path_exists (os E) persist_directory)) (\<lambda>present.
     bindE (if present then
              bindE (changing (Call_rmtree persist_directory)
                       (shutil_rmtree (os E) persist_directory)) (\<lambda>_.
              bindE (changing (Call_makedirs persist_directory)
                       (os_makedirs (os E) persist_directory)) (\<lambda>_.
              logger_info Msg_store_deleted))
            else returnE ()) (\<lambda>_.
     bindE (changing (Call_from_documents splitted_docs persist_directory)
              (Chroma_from_documents (lc E) splitted_docs embeddings persist_directory)) (\<lambda>db.
     bindE (changing Call_persist (Chroma_persist (lc E) db)) (\<lambda>_.
     bindE (logger_info Msg_store_persisted) (\<lambda>_.
     bindE (query (os_path_exists (os E) persist_directory)) (\<lambda>saved.
     bindE (if saved then
              bindE (query_raising (os_listdir (os E) persist_directory)) (\<lambda>files.
              logger_info (Msg_saved_files files))
            else logger_error Msg_store_save_failed) (\<lambda>_.
     reading (Call_as_retriever (SEARCH_K (ct E)))
       (\<lambda>_. as_retriever (lc E) db (SEARCH_K (ct E))))))))))"

text \<open>
  \<^verbatim>\<open>
  def process_rag(persist_directory=CHROMA_DB_DIR):
      ...
      try:
          ...
      except Exception as e:
          logger.error(f"...: {e}")
          raise
  \<close>
\<close>

definition process_rag :: "('w, 'obj) env \<Rightarrow> string \<Rightarrow> ('obj, 'w) action" where
  "process_rag E persist_directory =
     bindE (process_rag_prepare E persist_directory) (\<lambda>(embeddings, splitted_docs).
       try_except (process_rag_build E persist_directory embeddings splitted_docs)
         (\<lambda>e. bindE (logger_error (Msg_store_creation_error e)) (\<lambda>_. raiseE e)))"

text \<open>
  The calls the \<^verbatim>\<open>try\<close> block makes when nothing raises, given whether the directory
  was found at line 75.
\<close>

definition build_calls :: "bool \<Rightarrow> string \<Rightarrow> document list \<Rightarrow> int \<Rightarrow> call list" where
  "build_calls present persist_directory splitted_docs k =
     (if present then [Call_rmtree persist_directory, Call_makedirs persist_directory] else []) @
     [Call_from_documents splitted_docs persist_directory, Call_persist, Call_as_retriever k]"

fun is_load :: "call \<Rightarrow> bool" where
  "is_load (Call_load path) = True"
| "is_load c = False"

fun is_creation_error :: "level \<times> message \<Rightarrow> bool" where
  "is_creation_error (ERROR, Msg_store_creation_error e) = True"
| "is_creation_error entry = False"

section \<open>A small world to run the pipeline in\<close>

text \<open>
  A filesystem with directories (each with the names it lists) and files (each with its
  records), POSIX paths, and library objects that remember how they were made. The
  loaders read the files: the text loader gives one document per file, the CSV loader
  one document per record.
\<close>

record disk =
  dirs :: "(string \<times> string list) list"
  files :: "(string \<times> string list) list"

datatype obj =
    Embeddings
  | Splitter int int string
  | Store string "document list"
  | Retriever obj int

definition posixpath_join :: "string \<Rightarrow> string \<Rightarrow> string" where
  "posixpath_join a b =
     (if startswith b ''/'' then b
      else if a = [] \<or> last a = CHR ''/'' then a @ b
      else a @ ''/'' @ b)"

definition disk_isdir :: "string \<Rightarrow> disk \<Rightarrow> bool" where
  "disk_isdir p w = (map_of (dirs w) p \<noteq> None)"

definition disk_exists :: "string \<Rightarrow> disk \<Rightarrow> bool" where
  "disk_exists p w = (map_of (dirs w) p \<noteq> None \<or> map_of (files w) p \<noteq> None)"

definition disk_listdir :: "string \<Rightarrow> disk \<Rightarrow> exn + string list" where
  "disk_listdir p w =
     (case map_of (dirs w) p of
        None \<Rightarrow> Inl (Exn ''No such file or directory'')
      | Some names \<Rightarrow> Inr names)"

definition disk_makedirs :: "string \<Rightarrow> disk \<Rightarrow> (exn + unit) \<times> disk" where
  "disk_makedirs p w =
     (if map_of (dirs w) p \<noteq> None then (Inr (), w)
      else if map_of (files w) p \<noteq> None then (Inl (Exn ''File exists''), w)
      else (Inr (), w\<lparr>dirs := dirs w @ [(p, [])]\<rparr>))"

definition disk_rmtree :: "string \<Rightarrow> disk \<Rightarrow> (exn + unit) \<times> disk" where
  "disk_rmtree p w =
     (if map_of (dirs w) p \<noteq> None
      then (Inr (), w\<lparr>dirs := filter (\<lambda>(q, names). q \<noteq> p) (dirs w)\<rparr>)
      else (Inl (Exn ''Not a directory''), w))"

definition text_loader :: "string \<Rightarrow> disk \<Rightarrow> exn + document list" where
  "text_loader path w =
     (case map_of (files w) path of
        None \<Rightarrow> Inl (Exn ''No such file or directory'')
      | Some records \<Rightarrow>
          Inr [\<lparr>page_content = join [CHR 0x0A] records, metadata = [(''source'', Str path)]\<rparr>])"

definition csv_loader :: "string \<Rightarrow> disk \<Rightarrow> exn + document list" where
  "csv_loader path w =
     (case map_of (files w) path of
        None \<Rightarrow> Inl (Exn ''No such file or directory'')
      | Some records \<Rightarrow>
          Inr (map (\<lambda>(i, r). \<lparr>page_content = r,
                               metadata = [(''source'', Str path), (''row'', IntV (int i))]\<rparr>)
                 (enumerate 0 records)))"

definition disk_os :: "disk os_module" where
  "disk_os =
     \<lparr>os_path_isdir = disk_isdir, os_path_exists = disk_exists, os_path_join = posixpath_join,
      os_listdir = disk_listdir, os_makedirs = disk_makedirs, shutil_rmtree = disk_rmtree\<rparr>"

text \<open>
  Library objects for the small world. The splitter refuses an overlap larger than the
  chunk size and otherwise returns each document as one chunk; the store writes one
  file into its directory.
\<close>

definition disk_langchain :: "(disk, obj) langchain" where
  "disk_langchain =
     \<lparr>WebBaseLoader_load = (\<lambda>url w. Inl (Exn ''unreachable'')),
      OpenAIEmbeddings = (\<lambda>w. Inr Embeddings),
      CharacterTextSplitter = (\<lambda>size overlap sep.
        if overlap > size then Inl (Exn ''Got a larger chunk overlap than chunk size'')
        else Inr (Splitter size overlap sep)),
      split_documents = (\<lambda>splitter docs. Inr docs),
      Chroma_from_documents = (\<lambda>docs embeddings p w.
        (Inr (Store p docs),
         w\<lparr>dirs := (p, [''chroma.sqlite3'']) # filter (\<lambda>(q, names). q \<noteq> p) (dirs w)\<rparr>)),
      Chroma_persist = (\<lambda>db w. (Inr (), w)),
      as_retriever = (\<lambda>db k. Inr (Retriever db k))\<rparr>"

definition disk_constants :: "disk constants" where
  "disk_constants =
     \<lparr>CHUNK_SIZE = 500, CHUNK_OVERLAP = 50, SEARCH_K = 5,
      RAG_TOP_FOLDER_PATH = ''data'', WEB_URL_LOAD_TARGETS = [],
      SUPPORTED_EXTENSIONS = [''.txt'' \<mapsto> text_loader, ''.csv'' \<mapsto> csv_loader]\<rparr>"

text \<open>
  Two interpreters: one on Linux, one on Windows. Their codec keeps the characters
  below 128 and drops the rest under \<open>Ignore\<close>; normalisation leaves such text as it is.
\<close>

definition ascii_encode :: "codec \<Rightarrow> codec_errors \<Rightarrow> string \<Rightarrow> string" where
  "ascii_encode c errs s = filter (\<lambda>x. of_char x < (128 :: nat)) s"

definition linux_lib :: pylib where
  "linux_lib =
     \<lparr>sys_platform = ''linux'', unicodedata_normalize = (\<lambda>form s. s),
      str_encode = ascii_encode, bytes_decode = (\<lambda>c b. b), os_path = Posixpath\<rparr>"

definition windows_lib :: pylib where
  "windows_lib =
     \<lparr>sys_platform = ''win32'', unicodedata_normalize = (\<lambda>form s. s),
      str_encode = ascii_encode, bytes_decode = (\<lambda>c b. b), os_path = Ntpath\<rparr>"

definition disk_env :: "(disk, obj) env" where
  "disk_env =
     \<lparr>lib = linux_lib, os = disk_os, lc = disk_langchain, ct = disk_constants,
      recursion_limit = 1000\<rparr>"

text \<open>
  A corpus under \<^verbatim>\<open>data\<close>: one text file, one CSV file of three records, and one file
  without an extension.
\<close>

definition corpus :: disk where
  "corpus =
     \<lparr>dirs = [(''data'', [''notes.txt'', ''table.csv'', ''README''])],
      files = [(''data/notes.txt'', [''A'', ''B'', ''C'']),
               (''data/table.csv'', [''r1'', ''r2'', ''r3'']),
               (''data/README'', [''x''])]\<rparr>"

definition start :: "disk \<Rightarrow> disk state" where
  "start w = \<lparr>world = w, log = [], calls = []\<rparr>"

section \<open>What an action may do\<close>

text \<open>
  Two summaries of an action, used to follow the calls through the pipeline. An action
  \<open>only_loads\<close> when it leaves world and log alone and calls nothing but file loaders.
  An action \<open>does xs\<close> when the calls it adds are exactly \<open>xs\<close> if it returns and a
  prefix of \<open>xs\<close> if it raises, and it logs no store-creation error.
\<close>

definition only_loads :: "'w state \<Rightarrow> 'w state \<Rightarrow> bool" where
  "only_loads s s' = (world s' = world s \<and> log s' = log s \<and>
     (\<exists>cs. calls s' = calls s @ cs \<and> list_all is_load cs))"

definition does :: "('a, 'w) action \<Rightarrow> call list \<Rightarrow> bool" where
  "does m xs = (\<forall>s r s'. m s = (r, s') \<longrightarrow>
      (\<exists>cs ls. calls s' = calls s @ cs \<and> log s' = log s @ ls \<and> \<not> list_ex is_creation_error ls
         \<and> (case r of Inr a \<Rightarrow> cs = xs | Inl e \<Rightarrow> prefix cs xs)))"

section \<open>More of the small world\<close>

text \<open>
  An environment in which the vector store cannot be built, the chunks the corpus
  yields, and the corpus with an empty store directory already in place.
\<close>

definition failing_env :: "(disk, obj) env" where
  "failing_env = disk_env\<lparr>lc := disk_langchain\<lparr>Chroma_from_documents :=
      (\<lambda>docs embeddings p w. (Inl (Exn ''embedding request failed''), w))\<rparr>\<rparr>"

definition corpus_chunks :: "document list" where
  "corpus_chunks =
     [\<lparr>page_content = [CHR ''A'', CHR 0x0A, CHR ''B'', CHR 0x0A, CHR ''C''],
       metadata = [(''source'', Str ''data/notes.txt'')]\<rparr>,
      \<lparr>page_content = [CHR ''r'', CHR ''1'', CHR 0x0A, CHR ''r'', CHR ''2'', CHR 0x0A, CHR ''r'', CHR ''3''],
       metadata = [(''source'', Str ''data/table.csv'')]\<rparr>]"

definition corpus_empty_store :: disk where
  "corpus_empty_store = corpus\<lparr>dirs := dirs corpus @ [(''chroma_db'', [])]\<rparr>"

section \<open>The pipeline as the specification words it\<close>

text \<open>
  A document is \<open>normalized_from\<close> a loaded one when its content is what
  \<open>adjust_string\<close> returns for the loaded content, its metadata has the same keys in
  the same order, and every metadata value is what \<open>adjust_string\<close> returns for the
  loaded value. \<open>pipeline_calls\<close> is the order of the steps: create the directory, load
  the files, load the web pages, make the embedding model and the splitter, split,
  remove the directory and create it again, build the store, persist it, ask for the
  retriever.
\<close>

definition normalized_from :: "pylib \<Rightarrow> document \<Rightarrow> document \<Rightarrow> bool" where
  "normalized_from L loaded normalized =
     (Str (page_content normalized) = adjust_string L (Str (page_content loaded)) \<and>
      map fst (metadata normalized) = map fst (metadata loaded) \<and>
      map snd (metadata normalized) = map (adjust_string L) (map snd (metadata loaded)))"

definition pipeline_calls ::
  "('w, 'obj) env \<Rightarrow> string \<Rightarrow> call list \<Rightarrow> document list \<Rightarrow> document list \<Rightarrow> call list" where
  "pipeline_calls E persist_directory file_calls normalized chunks =
     [Call_makedirs persist_directory] @ file_calls
       @ map Call_web_load (WEB_URL_LOAD_TARGETS (ct E))
       @ [Call_OpenAIEmbeddings,
          Call_CharacterTextSplitter (CHUNK_SIZE (ct E)) (CHUNK_OVERLAP (ct E)) [CHR 0x0A],
          Call_split_documents normalized,
          Call_rmtree persist_directory, Call_makedirs persist_directory,
          Call_from_documents chunks persist_directory, Call_persist,
          Call_as_retriever (SEARCH_K (ct E))]"

section \<open>A Windows world with web pages\<close>

text \<open>
  A second environment: the interpreter runs on Windows, paths are joined with a
  backslash (the case of \<^verbatim>\<open>ntpath.join\<close> for a name without drive or leading
  separator), two web pages are configured, and the splitter cuts every document into
  its lines. Some of the text holds characters above 127, which the codec of this world
  drops. \<open>no_key_env\<close> is the same environment without a key for the embedding model.
\<close>

definition ntpath_join :: "string \<Rightarrow> string \<Rightarrow> string" where
  "ntpath_join a b =
     (if a = [] \<or> last a = CHR 0x5C \<or> last a = CHR ''/'' then a @ b
      else a @ [CHR 0x5C] @ b)"

fun split_lines :: "string \<Rightarrow> string list" where
  "split_lines [] = [[]]"
| "split_lines (c # cs) =
     (if c = CHR 0x0A then [] # split_lines cs
      else (case split_lines cs of [] \<Rightarrow> [[c]] | l # ls \<Rightarrow> (c # l) # ls))"

definition line_splitter :: "document list \<Rightarrow> document list" where
  "line_splitter docs =
     concat (map (\<lambda>d. map (\<lambda>l. \<lparr>page_content = l, metadata = metadata d\<rparr>)
                          (split_lines (page_content d))) docs)"

definition web_pages :: "(string \<times> document list) list" where
  "web_pages =
     [(''https://example.com/about'',
       [\<lparr>page_content = [CHR ''W'', CHR 0xC3, CHR 0xA9, CHR ''b''],
         metadata = [(''source'', Str ''https://example.com/about''),
                     (''title'', Str [CHR ''T'', CHR 0xE2, CHR 0x80, CHR 0x93, CHR ''1'']),
                     (''length'', IntV 4)]\<rparr>]),
      (''https://example.com/faq'',
       [\<lparr>page_content = [CHR ''Q'', CHR 0x0A, CHR ''A''],
         metadata = [(''source'', Str ''https://example.com/faq''), (''language'', NoneV)]\<rparr>])]"

definition windows_env :: "(disk, obj) env" where
  "windows_env =
     \<lparr>lib = windows_lib,
      os = disk_os\<lparr>os_path_join := ntpath_join\<rparr>,
      lc = disk_langchain
        \<lparr>WebBaseLoader_load := (\<lambda>url w.
           case map_of web_pages url of
             None \<Rightarrow> Inl (Exn ''unreachable'')
           | Some docs \<Rightarrow> Inr docs),
         split_documents := (\<lambda>splitter docs. Inr (line_splitter docs))\<rparr>,
      ct = disk_constants
        \<lparr>WEB_URL_LOAD_TARGETS := [''https://example.com/about'', ''https://example.com/faq'']\<rparr>,
      recursion_limit = 1000\<rparr>"

definition windows_corpus :: disk where
  "windows_corpus =
     \<lparr>dirs = [(''data'', [''notes.txt'', ''table.csv''])],
      files = [(''data'' @ [CHR 0x5C] @ ''notes.txt'', [[CHR ''A'', CHR 0xE3], ''B'']),
               (''data'' @ [CHR 0x5C] @ ''table.csv'', [''r1'', ''r2''])]\<rparr>"

definition notes_path :: string where
  "notes_path = ''data'' @ [CHR 0x5C] @ ''notes.txt''"

definition table_path :: string where
  "table_path = ''data'' @ [CHR 0x5C] @ ''table.csv''"

definition windows_normalized :: "document list" where
  "windows_normalized =
     [\<lparr>page_content = [CHR ''A'', CHR 0x0A, CHR ''B''], metadata = [(''source'', Str notes_path)]\<rparr>,
      \<lparr>page_content = [CHR ''r'', CHR ''1'', CHR 0x0A, CHR ''r'', CHR ''2''],
        metadata = [(''source'', Str table_path)]\<rparr>,
      \<lparr>page_content = ''Wb'',
        metadata = [(''source'', Str ''https://example.com/about''), (''title'', Str ''T1''),
                    (''length'', IntV 4)]\<rparr>,
      \<lparr>page_content = [CHR ''Q'', CHR 0x0A, CHR ''A''],
        metadata = [(''source'', Str ''https://example.com/faq''), (''language'', NoneV)]\<rparr>]"

definition windows_chunks :: "document list" where
  "windows_chunks =
     [\<lparr>page_content = ''A'', metadata = [(''source'', Str notes_path)]\<rparr>,
      \<lparr>page_content = ''B'', metadata = [(''source'', Str notes_path)]\<rparr>,
      \<lparr>page_content = ''r1'', metadata = [(''source'', Str table_path)]\<rparr>,
      \<lparr>page_content = ''r2'', metadata = [(''source'', Str table_path)]\<rparr>,
      \<lparr>page_content = ''Wb'',
        metadata = [(''source'', Str ''https://example.com/about''), (''title'', Str ''T1''),
                    (''length'', IntV 4)]\<rparr>,
      \<lparr>page_content = ''Q'',
        metadata = [(''source'', Str ''https://example.com/faq''), (''language'', NoneV)]\<rparr>,
      \<lparr>page_content = ''A'',
        metadata = [(''source'', Str ''https://example.com/faq''), (''language'', NoneV)]\<rparr>]"

definition no_key_env :: "(disk, obj) env" where
  "no_key_env = windows_env\<lparr>lc := (lc windows_env)\<lparr>OpenAIEmbeddings := (\<lambda>w. Inl (Exn ''no API key''))\<rparr>\<rparr>"

section \<open>Facts about the small world\<close>

lemma disk_env_simps:
  "lib disk_env = linux_lib" "ct disk_env = disk_constants"
  "os disk_env = disk_os" "lc disk_env = disk_langchain"
  by (simp_all add: disk_env_def)

lemma splitext_table_csv:
  "snd (os_path_splitext (os_path (lib disk_env)) ''data/table.csv'') = ''.csv''"
  by (simp add: disk_env_simps linux_lib_def splitext_generic_def rfind_def)

lemma splitext_TABLE_CSV:
  "snd (os_path_splitext (os_path (lib disk_env)) ''data/TABLE.CSV'') = ''.CSV''"
  by (simp add: disk_env_simps linux_lib_def splitext_generic_def rfind_def)

lemma splitext_gone:
  "snd (os_path_splitext (os_path (lib disk_env)) ''data/gone.txt'') = ''.txt''"
  "snd (os_path_splitext (os_path (lib disk_env)) ''data/gone'') = []"
  by (simp_all add: disk_env_simps linux_lib_def splitext_generic_def rfind_def)

section \<open>The text normalizer: what it returns\<close>

text \<open>
  Claim C4. \<open>adjust_string\<close> returns a value that is not text unchanged on every
  platform; on a platform whose \<^verbatim>\<open>sys.platform\<close> does not start with \<^verbatim>\<open>win\<close> it
  returns every value unchanged, text included; on Windows it returns, for a text, the
  cp932 decoding of the cp932 encoding, with the \<^verbatim>\<open>ignore\<close> error handler (which drops
  what the codec cannot represent), of the NFC normal form of the text.
\<close>

theorem adjust_string_cases:
  "((\<forall>s. v \<noteq> Str s) \<longrightarrow> adjust_string L v = v) \<and>
   (\<not> startswith (sys_platform L) ''win'' \<longrightarrow> adjust_string L v = v) \<and>
   (startswith (sys_platform L) ''win'' \<longrightarrow>
      adjust_string L (Str s) =
        Str (bytes_decode L Cp932 (str_encode L Cp932 Ignore (unicodedata_normalize L NFC s))))"
  by (cases v) (simp_all add: Let_def)

theorem adjust_string_cases_witness:
  "adjust_string linux_lib (IntV 3) = IntV 3 \<and>
   adjust_string windows_lib NoneV = NoneV \<and>
   adjust_string linux_lib (Str [CHR ''a'', CHR 0xE3, CHR ''b'']) = Str [CHR ''a'', CHR 0xE3, CHR ''b''] \<and>
   adjust_string windows_lib (Str [CHR ''a'', CHR 0xE3, CHR ''b'']) = Str ''ab''"
  using adjust_string_cases [of "IntV 3" linux_lib]
        adjust_string_cases [of NoneV windows_lib]
        adjust_string_cases [of "Str [CHR ''a'', CHR 0xE3, CHR ''b'']" linux_lib]
        adjust_string_cases [of _ windows_lib "[CHR ''a'', CHR 0xE3, CHR ''b'']"]
  by (simp add: linux_lib_def windows_lib_def startswith_def ascii_encode_def)

section \<open>File Loader Dispatch\<close>

text \<open>
  Claim C5. When the extension of the path, as \<^verbatim>\<open>os.path.splitext\<close> gives it (with its
  leading dot, compared as it is written), is not a key of \<^verbatim>\<open>SUPPORTED_EXTENSIONS\<close>,
  \<open>file_load\<close> returns the accumulator as it received it, raises nothing, calls no
  loader and leaves the state as it was.
\<close>

theorem file_load_unsupported:
  assumes "SUPPORTED_EXTENSIONS (ct E) (snd (os_path_splitext (os_path (lib E)) path)) = None"
  shows "file_load E path docs_all s = (Inr docs_all, s)"
  using assms by (simp add: file_load_def returnE_def)

theorem file_load_unsupported_witness:
  "file_load disk_env ''data/TABLE.CSV'' [] (start corpus) = (Inr [], start corpus)"
proof -
  have "SUPPORTED_EXTENSIONS (ct disk_env)
          (snd (os_path_splitext (os_path (lib disk_env)) ''data/TABLE.CSV'')) = None"
    unfolding splitext_TABLE_CSV by (simp add: disk_env_simps disk_constants_def)
  from file_load_unsupported [OF this] show ?thesis .
qed

text \<open>
  Claim C3. For a path whose extension is \<^verbatim>\<open>.csv\<close>, with \<^verbatim>\<open>.csv\<close> a supported extension
  whose loader returns the records \<open>docs\<close>, \<open>file_load\<close> appends exactly one document to
  the accumulator, however many records there are: its content is the contents of the
  records joined by newlines and its metadata is exactly \<^verbatim>\<open>{"source": path}\<close>.
\<close>

theorem file_load_csv:
  assumes "snd (os_path_splitext (os_path (lib E)) path) = ''.csv''"
    and "SUPPORTED_EXTENSIONS (ct E) ''.csv'' = Some loader"
    and "loader path (world s) = Inr docs"
  shows "file_load E path docs_all s =
           (Inr (docs_all @
                 [\<lparr>page_content = join [CHR 0x0A] (map page_content docs),
                   metadata = [(''source'', Str path)]\<rparr>]),
            s\<lparr>calls := calls s @ [Call_load path]\<rparr>)"
  using assms by (simp add: file_load_def returnE_def bindE_def reading_def)

theorem file_load_csv_witness:
  "file_load disk_env ''data/table.csv'' [] (start corpus) =
     (Inr [\<lparr>page_content =
              [CHR ''r'', CHR ''1'', CHR 0x0A, CHR ''r'', CHR ''2'', CHR 0x0A, CHR ''r'', CHR ''3''],
            metadata = [(''source'', Str ''data/table.csv'')]\<rparr>],
      (start corpus)\<lparr>calls := [Call_load ''data/table.csv'']\<rparr>)"
proof -
  have sup: "SUPPORTED_EXTENSIONS (ct disk_env) ''.csv'' = Some csv_loader"
    by (simp add: disk_env_simps disk_constants_def)
  have load: "csv_loader ''data/table.csv'' (world (start corpus)) =
      Inr [\<lparr>page_content = ''r1'', metadata = [(''source'', Str ''data/table.csv''), (''row'', IntV 0)]\<rparr>,
           \<lparr>page_content = ''r2'', metadata = [(''source'', Str ''data/table.csv''), (''row'', IntV 1)]\<rparr>,
           \<lparr>page_content = ''r3'', metadata = [(''source'', Str ''data/table.csv''), (''row'', IntV 2)]\<rparr>]"
    by (simp add: csv_loader_def corpus_def start_def)
  from file_load_csv [OF splitext_table_csv sup load, of "[]"] show ?thesis
    by (simp add: start_def)
qed

section \<open>The Corpus Walker on a path that is not a directory\<close>

text \<open>
  Claim C10. When \<^verbatim>\<open>os.path.isdir(path)\<close> is false, which it also is for a path that
  does not exist, and the interpreter allows one more call, \<open>recursive_file_check\<close>
  does what \<open>file_load\<close> does on that path. If the extension is not supported the path
  is skipped: nothing is raised and nothing changes. If the extension is supported the
  loader is called, and an exception it raises is the result of the walker.
\<close>

theorem recursive_file_check_not_dir:
  assumes "\<not> os_path_isdir (os E) path (world s)"
  shows "recursive_file_check (Suc d) E path docs_all s = file_load E path docs_all s
    \<and> (SUPPORTED_EXTENSIONS (ct E) (snd (os_path_splitext (os_path (lib E)) path)) = None \<longrightarrow>
         recursive_file_check (Suc d) E path docs_all s = (Inr docs_all, s))
    \<and> (\<forall>loader. SUPPORTED_EXTENSIONS (ct E) (snd (os_path_splitext (os_path (lib E)) path)) = Some loader \<longrightarrow>
         calls (snd (recursive_file_check (Suc d) E path docs_all s)) = calls s @ [Call_load path])
    \<and> (\<forall>loader e. SUPPORTED_EXTENSIONS (ct E) (snd (os_path_splitext (os_path (lib E)) path)) = Some loader
          \<and> loader path (world s) = Inl e \<longrightarrow>
         recursive_file_check (Suc d) E path docs_all s = (Inl e, s\<lparr>calls := calls s @ [Call_load path]\<rparr>))"
  using assms
  by (auto simp add: bindE_def query_def file_load_def returnE_def reading_def split: sum.splits)

theorem recursive_file_check_not_dir_witness:
  "recursive_file_check 1000 disk_env ''data/gone.txt'' [] (start corpus) =
     (Inl (Exn ''No such file or directory''),
      (start corpus)\<lparr>calls := [Call_load ''data/gone.txt'']\<rparr>)
   \<and> recursive_file_check 1000 disk_env ''data/gone'' [] (start corpus) = (Inr [], start corpus)"
proof -
  have nd: "\<not> os_path_isdir (os disk_env) ''data/gone.txt'' (world (start corpus))"
           "\<not> os_path_isdir (os disk_env) ''data/gone'' (world (start corpus))"
    by (simp_all add: disk_env_simps disk_os_def disk_isdir_def corpus_def start_def)
  have sup: "SUPPORTED_EXTENSIONS (ct disk_env) ''.txt'' = Some text_loader"
            "SUPPORTED_EXTENSIONS (ct disk_env) [] = None"
    by (simp_all add: disk_env_simps disk_constants_def)
  have err: "text_loader ''data/gone.txt'' (world (start corpus)) =
               Inl (Exn ''No such file or directory'')"
    by (simp add: text_loader_def corpus_def start_def)
  have n: "(1000::nat) = Suc 999" by simp
  note a = recursive_file_check_not_dir
             [OF nd(1), of 999 "[]", unfolded splitext_gone sup, THEN conjunct2]
  note b = recursive_file_check_not_dir
             [OF nd(2), of 999 "[]", unfolded splitext_gone sup, THEN conjunct2]
  from a err b show ?thesis unfolding n
    by (simp add: start_def)
qed

section \<open>Following the calls through the pipeline\<close>

lemma bindE_cases:
  assumes "bindE m f s = (r, s')"
  obtains (raised) e where "m s = (Inl e, s')" "r = Inl e"
        | (returned) a s1 where "m s = (Inr a, s1)" "f a s1 = (r, s')"
  using assms by (auto simp add: bindE_def split: prod.splits sum.splits)

lemma bindE_Inr:
  "bindE m f s = (Inr b, s') \<longleftrightarrow> (\<exists>a s1. m s = (Inr a, s1) \<and> f a s1 = (Inr b, s'))"
  by (auto simp add: bindE_def split: prod.splits sum.splits)

lemma only_loads_refl: "only_loads s s"
  by (simp add: only_loads_def)

lemma only_loads_trans: "only_loads a b \<Longrightarrow> only_loads b c \<Longrightarrow> only_loads a c"
  by (auto simp add: only_loads_def)

lemma for_each_invariant:
  assumes step: "\<And>x acc s r s'. x \<in> set xs \<Longrightarrow> body x acc s = (r, s') \<Longrightarrow> R s s'"
    and refl: "\<And>s. R s s"
    and trans: "\<And>a b c. R a b \<Longrightarrow> R b c \<Longrightarrow> R a c"
  shows "for_each body xs acc s = (r, s') \<Longrightarrow> R s s'"
  using step
proof (induction xs arbitrary: acc s)
  case Nil
  then show ?case by (simp add: returnE_def refl)
next
  case (Cons x xs)
  from Cons.prems(1) have "bindE (body x acc) (for_each body xs) s = (r, s')" by simp
  then show ?case
  proof (cases rule: bindE_cases)
    case (raised e)
    then show ?thesis using Cons.prems(2) [of x acc s "Inl e" s'] by simp
  next
    case (returned a s1)
    have "R s s1" using returned(1) Cons.prems(2) [of x acc s "Inr a" s1] by simp
    moreover have "R s1 s'"
    proof (rule Cons.IH [OF returned(2)])
      fix y acc0 t r0 t'
      assume "y \<in> set xs" "body y acc0 t = (r0, t')"
      then show "R t t'" using Cons.prems(2) [of y acc0 t r0 t'] by simp
    qed
    ultimately show ?thesis by (rule trans)
  qed
qed

lemma file_load_only_loads: "file_load E path acc s = (r, s') \<Longrightarrow> only_loads s s'"
  by (auto simp add: file_load_def only_loads_def returnE_def bindE_def reading_def Let_def
       split: option.splits if_splits sum.splits)

lemma recursive_file_check_only_loads:
  "recursive_file_check d E path acc s = (r, s') \<Longrightarrow> only_loads s s'"
proof (induction d arbitrary: path acc s r s')
  case 0
  then show ?case by (simp add: raiseE_def only_loads_refl)
next
  case (Suc d)
  show ?case
  proof (cases "os_path_isdir (os E) path (world s)")
    case False
    with Suc.prems have "file_load E path acc s = (r, s')"
      by (simp add: bindE_def query_def)
    then show ?thesis by (rule file_load_only_loads)
  next
    case True
    show ?thesis
    proof (cases "os_listdir (os E) path (world s)")
      case (Inl e)
      with True Suc.prems have "s' = s"
        by (simp add: bindE_def query_def query_raising_def)
      then show ?thesis by (simp add: only_loads_refl)
    next
      case (Inr files)
      with True Suc.prems have
        "for_each (\<lambda>file acc. recursive_file_check d E (os_path_join (os E) path file) acc)
           files acc s = (r, s')"
        by (simp add: bindE_def query_def query_raising_def)
      then show ?thesis
        by (rule for_each_invariant [rotated -1]) (auto intro: Suc.IH only_loads_refl only_loads_trans)
    qed
  qed
qed

lemma web_loop_calls:
  "for_each (\<lambda>web_url web_docs_all.
       bindE (reading (Call_web_load web_url) (f web_url))
         (\<lambda>web_docs. returnE (web_docs_all @ web_docs))) urls acc s = (Inr docs, s')
   \<Longrightarrow> world s' = world s \<and> log s' = log s \<and> calls s' = calls s @ map Call_web_load urls"
proof (induction urls arbitrary: acc s)
  case Nil
  then show ?case by (simp add: returnE_def)
next
  case (Cons u us)
  from Cons.prems obtain a s1 where
    1: "bindE (reading (Call_web_load u) (f u)) (\<lambda>web_docs. returnE (acc @ web_docs)) s = (Inr a, s1)"
    and 2: "for_each (\<lambda>web_url web_docs_all.
       bindE (reading (Call_web_load web_url) (f web_url))
         (\<lambda>web_docs. returnE (web_docs_all @ web_docs))) us a s1 = (Inr docs, s')"
    by (auto simp add: bindE_Inr)
  from 1 have "world s1 = world s \<and> log s1 = log s \<and> calls s1 = calls s @ [Call_web_load u]"
    by (auto simp add: bindE_Inr reading_def returnE_def)
  with Cons.IH [OF 2] show ?case by simp
qed

lemma load_data_sources_calls:
  assumes "load_data_sources E s = (Inr docs, s')"
  shows "world s' = world s \<and> log s' = log s \<and>
         (\<exists>file_calls. calls s' = calls s @ file_calls @ map Call_web_load (WEB_URL_LOAD_TARGETS (ct E))
            \<and> list_all is_load file_calls)"
proof -
  from assms obtain fd s1 wd s2 where
    1: "recursive_file_check (recursion_limit E) E (RAG_TOP_FOLDER_PATH (ct E)) [] s = (Inr fd, s1)"
    and 2: "for_each (\<lambda>web_url web_docs_all.
              bindE (reading (Call_web_load web_url) (WebBaseLoader_load (lc E) web_url))
                (\<lambda>web_docs. returnE (web_docs_all @ web_docs)))
              (WEB_URL_LOAD_TARGETS (ct E)) [] s1 = (Inr wd, s2)"
    and 3: "s' = s2"
    by (auto simp add: load_data_sources_def bindE_Inr returnE_def)
  from recursive_file_check_only_loads [OF 1] web_loop_calls [OF 2] 3 show ?thesis
    by (auto simp add: only_loads_def)
qed

lemma process_rag_prepare_Inr:
  assumes "process_rag_prepare E p s = (Inr (embeddings, chunks), s1)"
  shows "\<exists>docs file_calls text_splitter.
      os_makedirs (os E) p (world s) = (Inr (), world s1)
    \<and> calls s1 = calls s @ [Call_makedirs p] @ file_calls
          @ map Call_web_load (WEB_URL_LOAD_TARGETS (ct E))
          @ [Call_OpenAIEmbeddings,
             Call_CharacterTextSplitter (CHUNK_SIZE (ct E)) (CHUNK_OVERLAP (ct E)) [CHR 0x0A],
             Call_split_documents (map (adjust_document (lib E)) docs)]
    \<and> list_all is_load file_calls
    \<and> OpenAIEmbeddings (lc E) (world s1) = Inr embeddings
    \<and> CharacterTextSplitter (lc E) (CHUNK_SIZE (ct E)) (CHUNK_OVERLAP (ct E)) [CHR 0x0A] = Inr text_splitter
    \<and> split_documents (lc E) text_splitter (map (adjust_document (lib E)) docs) = Inr chunks
    \<and> log s1 = log s @ [(INFO, Msg_persist_directory p), (INFO, Msg_documents_loaded (length docs)),
                          (INFO, Msg_documents_after_split (length chunks))]"
proof -
  from assms obtain u sa sb docs sc where
    mk: "changing (Call_makedirs p) (os_makedirs (os E) p) s = (Inr u, sa)"
    and lg: "logger_info (Msg_persist_directory p) sa = (Inr (), sb)"
    and ld: "load_data_sources E sb = (Inr docs, sc)"
    and rest: "bindE (logger_info (Msg_documents_loaded (length docs))) (\<lambda>_.
     let docs_all = map (adjust_document (lib E)) docs in
     bindE (reading Call_OpenAIEmbeddings (OpenAIEmbeddings (lc E))) (\<lambda>embeddings.
     bindE (reading (Call_CharacterTextSplitter (CHUNK_SIZE (ct E)) (CHUNK_OVERLAP (ct E)) [CHR 0x0A])
              (\<lambda>_. CharacterTextSplitter (lc E) (CHUNK_SIZE (ct E)) (CHUNK_OVERLAP (ct E)) [CHR 0x0A]))
           (\<lambda>text_splitter.
     bindE (reading (Call_split_documents docs_all)
              (\<lambda>_. split_documents (lc E) text_splitter docs_all)) (\<lambda>splitted_docs.
     bindE (logger_info (Msg_documents_after_split (length splitted_docs))) (\<lambda>_.
     returnE (embeddings, splitted_docs)))))) sc = (Inr (embeddings, chunks), s1)"
    unfolding process_rag_prepare_def bindE_Inr by auto
  from mk have a: "os_makedirs (os E) p (world s) = (Inr (), world sa)"
      "calls sa = calls s @ [Call_makedirs p]" "log sa = log s"
    by (auto simp add: changing_def split: prod.splits)
  from lg have b: "world sb = world sa" "calls sb = calls sa"
      "log sb = log sa @ [(INFO, Msg_persist_directory p)]"
    by (auto simp add: logger_info_def)
  from load_data_sources_calls [OF ld] obtain file_calls where
    c: "world sc = world sb" "log sc = log sb"
       "calls sc = calls sb @ file_calls @ map Call_web_load (WEB_URL_LOAD_TARGETS (ct E))"
       "list_all is_load file_calls"
    by auto
  from rest obtain text_splitter where
    d: "world s1 = world sc"
       "OpenAIEmbeddings (lc E) (world sc) = Inr embeddings"
       "CharacterTextSplitter (lc E) (CHUNK_SIZE (ct E)) (CHUNK_OVERLAP (ct E)) [CHR 0x0A] = Inr text_splitter"
       "split_documents (lc E) text_splitter (map (adjust_document (lib E)) docs) = Inr chunks"
       "calls s1 = calls sc @ [Call_OpenAIEmbeddings,
             Call_CharacterTextSplitter (CHUNK_SIZE (ct E)) (CHUNK_OVERLAP (ct E)) [CHR 0x0A],
             Call_split_documents (map (adjust_document (lib E)) docs)]"
       "log s1 = log sc @ [(INFO, Msg_documents_loaded (length docs)),
                           (INFO, Msg_documents_after_split (length chunks))]"
    unfolding bindE_Inr Let_def
    by (auto simp add: logger_info_def reading_def returnE_def)
  show ?thesis
    apply (rule exI [of _ docs], rule exI [of _ file_calls], rule exI [of _ text_splitter])
    using a b c d by simp
qed

lemma doesD:
  "does m xs \<Longrightarrow> m s = (r, s') \<Longrightarrow>
     \<exists>cs ls. calls s' = calls s @ cs \<and> log s' = log s @ ls \<and> \<not> list_ex is_creation_error ls
         \<and> (case r of Inr a \<Rightarrow> cs = xs | Inl e \<Rightarrow> prefix cs xs)"
  unfolding does_def by blast

lemma does_returnE: "does (returnE a) []"
  by (simp add: does_def returnE_def)

lemma does_query: "does (query f) []"
  by (simp add: does_def query_def)

lemma does_query_raising: "does (query_raising f) []"
  by (auto simp add: does_def query_raising_def split: sum.splits)

lemma does_logger_info: "does (logger_info m) []"
  by (auto simp add: does_def logger_info_def)

lemma does_logger_error: "\<not> is_creation_error (ERROR, m) \<Longrightarrow> does (logger_error m) []"
  by (auto simp add: does_def logger_error_def)

lemma does_reading: "does (reading c f) [c]"
  by (auto simp add: does_def reading_def split: sum.splits)

lemma does_changing: "does (changing c f) [c]"
  by (auto simp add: does_def changing_def split: sum.splits prod.splits)

lemma does_bindE:
  assumes m: "does m xs" and f: "\<And>a. does (f a) ys"
  shows "does (bindE m f) (xs @ ys)"
  unfolding does_def
proof (intro allI impI)
  fix s r s'
  assume "bindE m f s = (r, s')"
  then show "\<exists>cs ls. calls s' = calls s @ cs \<and> log s' = log s @ ls \<and> \<not> list_ex is_creation_error ls
         \<and> (case r of Inr a \<Rightarrow> cs = xs @ ys | Inl e \<Rightarrow> prefix cs (xs @ ys))"
  proof (cases rule: bindE_cases)
    case (raised e)
    from doesD [OF m raised(1)] raised(2) show ?thesis
      by (auto simp add: prefix_def)
  next
    case (returned a s1)
    from doesD [OF m returned(1)] obtain ls1 where
      1: "calls s1 = calls s @ xs" "log s1 = log s @ ls1" "\<not> list_ex is_creation_error ls1"
      by auto
    from doesD [OF f returned(2)] obtain cs2 ls2 where
      2: "calls s' = calls s1 @ cs2" "log s' = log s1 @ ls2" "\<not> list_ex is_creation_error ls2"
         "case r of Inr a \<Rightarrow> cs2 = ys | Inl e \<Rightarrow> prefix cs2 ys"
      by auto
    show ?thesis
      apply (rule exI [of _ "xs @ cs2"], rule exI [of _ "ls1 @ ls2"])
      using 1 2 by (auto split: sum.splits)
  qed
qed

lemma does_build_rest:
  "does (bindE (if present then
              bindE (changing (Call_rmtree p) (shutil_rmtree (os E) p)) (\<lambda>_.
              bindE (changing (Call_makedirs p) (os_makedirs (os E) p)) (\<lambda>_.
              logger_info Msg_store_deleted))
            else returnE ()) (\<lambda>_.
     bindE (changing (Call_from_documents chunks p)
              (Chroma_from_documents (lc E) chunks embeddings p)) (\<lambda>db.
     bindE (changing Call_persist (Chroma_persist (lc E) db)) (\<lambda>_.
     bindE (logger_info Msg_store_persisted) (\<lambda>_.
     bindE (query (os_path_exists (os E) p)) (\<lambda>saved.
     bindE (if saved then
              bindE (query_raising (os_listdir (os E) p)) (\<lambda>files.
              logger_info (Msg_saved_files files))
            else logger_error Msg_store_save_failed) (\<lambda>_.
     reading (Call_as_retriever (SEARCH_K (ct E)))
       (\<lambda>_. as_retriever (lc E) db (SEARCH_K (ct E))))))))))
     (build_calls present p chunks (SEARCH_K (ct E)))"
proof -
  have first: "does (if present then
              bindE (changing (Call_rmtree p) (shutil_rmtree (os E) p)) (\<lambda>_.
              bindE (changing (Call_makedirs p) (os_makedirs (os E) p)) (\<lambda>_.
              logger_info Msg_store_deleted))
            else returnE ())
          (if present then [Call_rmtree p, Call_makedirs p] else [])"
    using does_bindE [OF does_changing, of "\<lambda>_. bindE (changing (Call_makedirs p) (os_makedirs (os E) p)) (\<lambda>_.
              logger_info Msg_store_deleted)" "[Call_makedirs p]" "Call_rmtree p" "shutil_rmtree (os E) p"]
          does_bindE [OF does_changing, of "\<lambda>_. logger_info Msg_store_deleted" "[]" "Call_makedirs p" "os_makedirs (os E) p"]
    by (simp add: does_returnE does_logger_info)
  have check: "\<And>saved. does (if saved then
              bindE (query_raising (os_listdir (os E) p)) (\<lambda>files.
              logger_info (Msg_saved_files files))
            else logger_error Msg_store_save_failed) []"
    using does_bindE [OF does_query_raising, of "\<lambda>files. logger_info (Msg_saved_files files)" "[]" "os_listdir (os E) p"]
    by (simp add: does_logger_info does_logger_error)
  have last: "\<And>db. does (bindE (changing Call_persist (Chroma_persist (lc E) db)) (\<lambda>_.
     bindE (logger_info Msg_store_persisted) (\<lambda>_.
     bindE (query (os_path_exists (os E) p)) (\<lambda>saved.
     bindE (if saved then
              bindE (query_raising (os_listdir (os E) p)) (\<lambda>files.
              logger_info (Msg_saved_files files))
            else logger_error Msg_store_save_failed) (\<lambda>_.
     reading (Call_as_retriever (SEARCH_K (ct E)))
       (\<lambda>_. as_retriever (lc E) db (SEARCH_K (ct E)))))))) ([Call_persist] @ [] @ [] @ [] @ [Call_as_retriever (SEARCH_K (ct E))])"
    by (intro does_bindE does_changing does_logger_info does_query check does_reading)
  have "does (bindE (changing (Call_from_documents chunks p)
              (Chroma_from_documents (lc E) chunks embeddings p)) (\<lambda>db.
     bindE (changing Call_persist (Chroma_persist (lc E) db)) (\<lambda>_.
     bindE (logger_info Msg_store_persisted) (\<lambda>_.
     bindE (query (os_path_exists (os E) p)) (\<lambda>saved.
     bindE (if saved then
              bindE (query_raising (os_listdir (os E) p)) (\<lambda>files.
              logger_info (Msg_saved_files files))
            else logger_error Msg_store_save_failed) (\<lambda>_.
     reading (Call_as_retriever (SEARCH_K (ct E)))
       (\<lambda>_. as_retriever (lc E) db (SEARCH_K (ct E))))))))) ([Call_from_documents chunks p] @ ([Call_persist] @ [] @ [] @ [] @ [Call_as_retriever (SEARCH_K (ct E))]))"
    by (intro does_bindE does_changing last)
  from does_bindE [OF first this] show ?thesis
    by (simp add: build_calls_def)
qed

lemma process_rag_build_any:
  assumes "process_rag_build E p embeddings chunks s1 = (r, s2)"
  shows "\<exists>cs ls. calls s2 = calls s1 @ cs \<and> log s2 = log s1 @ ls \<and> \<not> list_ex is_creation_error ls
         \<and> (case r of Inr a \<Rightarrow> cs = build_calls (os_path_exists (os E) p (world s1)) p chunks (SEARCH_K (ct E))
             | Inl e \<Rightarrow> prefix cs (build_calls (os_path_exists (os E) p (world s1)) p chunks (SEARCH_K (ct E))))"
  using assms unfolding process_rag_build_def
proof (cases rule: bindE_cases)
  case (raised e)
  then show ?thesis by (simp add: query_def)
next
  case (returned present sa)
  from returned(1) have "present = os_path_exists (os E) p (world s1)" "sa = s1"
    by (auto simp add: query_def)
  with returned(2) doesD [OF does_build_rest, of present p E chunks embeddings s1 r s2]
  show ?thesis by blast
qed

lemma changing_calls:
  "changing c f s = (r, s') \<Longrightarrow> calls s' = calls s @ [c] \<and> f (world s) = (r, world s')"
  by (auto simp add: changing_def split: prod.splits)

lemma bindE_first_calls:
  assumes m: "\<And>r s'. m s = (r, s') \<Longrightarrow> \<exists>cs. calls s' = calls s @ cs0 @ cs"
    and f: "\<And>a. does (f a) ys"
    and run: "bindE m f s = (r, s')"
  shows "\<exists>cs. calls s' = calls s @ cs0 @ cs"
  using run
proof (cases rule: bindE_cases)
  case (raised e)
  then show ?thesis using m by blast
next
  case (returned a s1)
  from m [OF returned(1)] obtain cs1 where "calls s1 = calls s @ cs0 @ cs1" by blast
  moreover from doesD [OF f returned(2)] obtain cs2 where "calls s' = calls s1 @ cs2" by blast
  ultimately show ?thesis by simp
qed

lemma does_recreate: "does (bindE (changing (Call_makedirs p) (os_makedirs (os E) p)) (\<lambda>_.
              logger_info Msg_store_deleted)) ([Call_makedirs p] @ [])"
  by (intro does_bindE does_changing does_logger_info)

lemma does_build_tail:
  "does (bindE (changing (Call_from_documents chunks p)
              (Chroma_from_documents (lc E) chunks embeddings p)) (\<lambda>db.
     bindE (changing Call_persist (Chroma_persist (lc E) db)) (\<lambda>_.
     bindE (logger_info Msg_store_persisted) (\<lambda>_.
     bindE (query (os_path_exists (os E) p)) (\<lambda>saved.
     bindE (if saved then
              bindE (query_raising (os_listdir (os E) p)) (\<lambda>files.
              logger_info (Msg_saved_files files))
            else logger_error Msg_store_save_failed) (\<lambda>_.
     reading (Call_as_retriever (SEARCH_K (ct E)))
       (\<lambda>_. as_retriever (lc E) db (SEARCH_K (ct E)))))))))
     ([Call_from_documents chunks p] @ [Call_persist] @ [] @ [] @ [] @ [Call_as_retriever (SEARCH_K (ct E))])"
proof -
  have check: "\<And>saved. does (if saved then
              bindE (query_raising (os_listdir (os E) p)) (\<lambda>files.
              logger_info (Msg_saved_files files))
            else logger_error Msg_store_save_failed) []"
    using does_bindE [OF does_query_raising, of "\<lambda>files. logger_info (Msg_saved_files files)" "[]" "os_listdir (os E) p"]
    by (simp add: does_logger_info does_logger_error)
  show ?thesis
    by (intro does_bindE does_changing does_logger_info does_query check does_reading)
qed

lemma process_rag_build_rmtree_first:
  assumes present: "os_path_exists (os E) p (world s1)"
    and run: "process_rag_build E p embeddings chunks s1 = (r, s2)"
  shows "\<exists>cs. calls s2 = calls s1 @ Call_rmtree p # cs
          \<and> (\<forall>w2. shutil_rmtree (os E) p (world s1) = (Inr (), w2) \<longrightarrow> (\<exists>cs'. cs = Call_makedirs p # cs'))"
proof -
  let ?recreate = "bindE (changing (Call_makedirs p) (os_makedirs (os E) p)) (\<lambda>_.
              logger_info Msg_store_deleted)"
  let ?del = "bindE (changing (Call_rmtree p) (shutil_rmtree (os E) p)) (\<lambda>_. ?recreate)"
  let ?tail = "\<lambda>_::unit. bindE (changing (Call_from_documents chunks p)
              (Chroma_from_documents (lc E) chunks embeddings p)) (\<lambda>db.
     bindE (changing Call_persist (Chroma_persist (lc E) db)) (\<lambda>_.
     bindE (logger_info Msg_store_persisted) (\<lambda>_.
     bindE (query (os_path_exists (os E) p)) (\<lambda>saved.
     bindE (if saved then
              bindE (query_raising (os_listdir (os E) p)) (\<lambda>files.
              logger_info (Msg_saved_files files))
            else logger_error Msg_store_save_failed) (\<lambda>_.
     reading (Call_as_retriever (SEARCH_K (ct E)))
       (\<lambda>_. as_retriever (lc E) db (SEARCH_K (ct E))))))))"
  from run present have body: "bindE ?del ?tail s1 = (r, s2)"
    unfolding process_rag_build_def
    by (cases rule: bindE_cases) (auto simp add: query_def)
  have del_first: "\<exists>cs. calls t' = calls s1 @ [Call_rmtree p] @ cs" if "?del s1 = (q, t')" for q t'
    using _ _ that
  proof (rule bindE_first_calls)
    show "\<exists>cs. calls u' = calls s1 @ [Call_rmtree p] @ cs"
      if "changing (Call_rmtree p) (shutil_rmtree (os E) p) s1 = (q', u')" for q' u'
      using changing_calls [OF that] by simp
    show "does ?recreate ([Call_makedirs p] @ [])" for a :: unit
      by (rule does_recreate)
  qed
  have first: "\<exists>cs. calls s2 = calls s1 @ [Call_rmtree p] @ cs"
    using del_first does_build_tail body by (rule bindE_first_calls)
  have second: "\<exists>cs. calls s2 = calls s1 @ [Call_rmtree p, Call_makedirs p] @ cs"
    if ok: "shutil_rmtree (os E) p (world s1) = (Inr (), w2)" for w2
  proof -
    have del_both: "\<exists>cs. calls t' = calls s1 @ [Call_rmtree p, Call_makedirs p] @ cs"
      if d: "?del s1 = (q, t')" for q t'
      using d
    proof (cases rule: bindE_cases)
      case (raised e)
      from changing_calls [OF raised(1)] ok show ?thesis by simp
    next
      case (returned a sa)
      from changing_calls [OF returned(1)] have a: "calls sa = calls s1 @ [Call_rmtree p]" by simp
      from returned(2) have "\<exists>cs. calls t' = calls sa @ [Call_makedirs p] @ cs"
      proof (cases rule: bindE_cases)
        case (raised e)
        from changing_calls [OF raised(1)] show ?thesis by simp
      next
        case (returned b sb)
        from changing_calls [OF returned(1)] returned(2) show ?thesis
          by (auto simp add: logger_info_def)
      qed
      with a show ?thesis by simp
    qed
    show ?thesis
      using del_both does_build_tail body by (rule bindE_first_calls)
  qed
  from first obtain cs where cs: "calls s2 = calls s1 @ Call_rmtree p # cs" by auto
  have "\<forall>w2. shutil_rmtree (os E) p (world s1) = (Inr (), w2) \<longrightarrow> (\<exists>cs'. cs = Call_makedirs p # cs')"
    using second cs by auto
  with cs show ?thesis by blast
qed

lemma try_except_Inr:
  "try_except m (\<lambda>e. bindE (logger_error (msg e)) (\<lambda>_. raiseE e)) s = (Inr a, s') \<Longrightarrow> m s = (Inr a, s')"
  by (auto simp add: try_except_def bindE_def logger_error_def raiseE_def split: prod.splits sum.splits)

lemma process_rag_Inr:
  assumes "process_rag E p s = (Inr retriever, s')"
  obtains embeddings chunks s1 where
    "process_rag_prepare E p s = (Inr (embeddings, chunks), s1)"
    "process_rag_build E p embeddings chunks s1 = (Inr retriever, s')"
  using assms unfolding process_rag_def bindE_Inr
  by (auto dest!: try_except_Inr)

lemma process_rag_after_prepare:
  assumes "process_rag_prepare E p s = (Inr (embeddings, chunks), s1)"
  shows "process_rag E p s =
    (case process_rag_build E p embeddings chunks s1 of
       (Inl e, s2) \<Rightarrow> (Inl e, s2\<lparr>log := log s2 @ [(ERROR, Msg_store_creation_error e)]\<rparr>)
     | (Inr r, s2) \<Rightarrow> (Inr r, s2))"
  using assms
  by (simp add: process_rag_def bindE_def try_except_def logger_error_def raiseE_def
        split: prod.splits sum.splits)

lemma adjust_document_normalized: "normalized_from L d (adjust_document L d)"
  by (cases "adjust_string L (Str (page_content d))")
     (auto simp add: normalized_from_def adjust_document_def Let_def split: if_splits)

lemma adjust_documents_normalized:
  "list_all2 (normalized_from L) docs (map (adjust_document L) docs)"
  by (induction docs) (simp_all add: adjust_document_normalized)

lemma web_loop_results:
  "for_each (\<lambda>web_url web_docs_all.
       bindE (reading (Call_web_load web_url) (f web_url))
         (\<lambda>web_docs. returnE (web_docs_all @ web_docs))) urls acc s = (Inr docs, s')
   \<Longrightarrow> \<exists>web_results. map (\<lambda>url. f url (world s)) urls = map Inr web_results
         \<and> docs = acc @ concat web_results"
proof (induction urls arbitrary: acc s)
  case Nil
  then show ?case by (simp add: returnE_def)
next
  case (Cons u us)
  from Cons.prems obtain a s1 where
    1: "bindE (reading (Call_web_load u) (f u)) (\<lambda>web_docs. returnE (acc @ web_docs)) s = (Inr a, s1)"
    and 2: "for_each (\<lambda>web_url web_docs_all.
       bindE (reading (Call_web_load web_url) (f web_url))
         (\<lambda>web_docs. returnE (web_docs_all @ web_docs))) us a s1 = (Inr docs, s')"
    by (auto simp add: bindE_Inr)
  from 1 obtain d where d: "f u (world s) = Inr d" "a = acc @ d" "world s1 = world s"
    by (auto simp add: bindE_Inr reading_def returnE_def)
  from Cons.IH [OF 2] obtain rs where
    rs: "map (\<lambda>url. f url (world s1)) us = map Inr rs" "docs = a @ concat rs"
    by blast
  show ?case
    by (rule exI [of _ "d # rs"]) (use d rs in simp)
qed

lemma web_loop_any:
  "for_each (\<lambda>web_url web_docs_all.
       bindE (reading (Call_web_load web_url) (f web_url))
         (\<lambda>web_docs. returnE (web_docs_all @ web_docs))) urls acc s = (r, s')
   \<Longrightarrow> world s' = world s \<and> log s' = log s
       \<and> (\<exists>cs. calls s' = calls s @ cs \<and> prefix cs (map Call_web_load urls))"
proof (induction urls arbitrary: acc s)
  case Nil
  then show ?case by (simp add: returnE_def)
next
  case (Cons u us)
  from Cons.prems have
    "bindE (bindE (reading (Call_web_load u) (f u)) (\<lambda>web_docs. returnE (acc @ web_docs)))
       (for_each (\<lambda>web_url web_docs_all.
       bindE (reading (Call_web_load web_url) (f web_url))
         (\<lambda>web_docs. returnE (web_docs_all @ web_docs))) us) s = (r, s')"
    by simp
  then show ?case
  proof (cases rule: bindE_cases)
    case (raised e)
    then have "world s' = world s \<and> log s' = log s \<and> calls s' = calls s @ [Call_web_load u]"
      by (auto simp add: bindE_def reading_def returnE_def split: sum.splits)
    then show ?thesis by simp
  next
    case (returned a s1)
    from returned(1) have 1: "world s1 = world s \<and> log s1 = log s \<and> calls s1 = calls s @ [Call_web_load u]"
      by (auto simp add: bindE_def reading_def returnE_def split: sum.splits)
    from Cons.IH [OF returned(2)] obtain cs where
      "world s' = world s1" "log s' = log s1" "calls s' = calls s1 @ cs" "prefix cs (map Call_web_load us)"
      by blast
    with 1 show ?thesis by simp
  qed
qed

lemma load_data_sources_results:
  assumes "load_data_sources E s = (Inr docs, s')"
  shows "\<exists>file_docs web_results file_calls.
      fst (recursive_file_check (recursion_limit E) E (RAG_TOP_FOLDER_PATH (ct E)) [] s) = Inr file_docs
    \<and> map (\<lambda>url. WebBaseLoader_load (lc E) url (world s)) (WEB_URL_LOAD_TARGETS (ct E)) = map Inr web_results
    \<and> docs = file_docs @ concat web_results
    \<and> world s' = world s \<and> log s' = log s
    \<and> calls s' = calls s @ file_calls @ map Call_web_load (WEB_URL_LOAD_TARGETS (ct E))
    \<and> list_all is_load file_calls"
proof -
  from assms obtain fd s1 wd s2 where
    1: "recursive_file_check (recursion_limit E) E (RAG_TOP_FOLDER_PATH (ct E)) [] s = (Inr fd, s1)"
    and 2: "for_each (\<lambda>web_url web_docs_all.
              bindE (reading (Call_web_load web_url) (WebBaseLoader_load (lc E) web_url))
                (\<lambda>web_docs. returnE (web_docs_all @ web_docs)))
              (WEB_URL_LOAD_TARGETS (ct E)) [] s1 = (Inr wd, s2)"
    and 3: "s' = s2" "docs = fd @ wd"
    by (auto simp add: load_data_sources_def bindE_Inr returnE_def)
  from recursive_file_check_only_loads [OF 1] obtain fc where
    a: "world s1 = world s" "log s1 = log s" "calls s1 = calls s @ fc" "list_all is_load fc"
    by (auto simp add: only_loads_def)
  from web_loop_results [OF 2] obtain rs where
    b: "map (\<lambda>url. WebBaseLoader_load (lc E) url (world s1)) (WEB_URL_LOAD_TARGETS (ct E)) = map Inr rs"
       "wd = concat rs"
    by auto
  from web_loop_calls [OF 2] have
    c: "world s2 = world s1" "log s2 = log s1"
       "calls s2 = calls s1 @ map Call_web_load (WEB_URL_LOAD_TARGETS (ct E))"
    by auto
  show ?thesis
    apply (rule exI [of _ fd], rule exI [of _ rs], rule exI [of _ fc])
    using 1 3 a b c by simp
qed

lemma load_data_sources_any:
  assumes "load_data_sources E s = (r, s')"
  shows "world s' = world s \<and> log s' = log s
    \<and> (\<exists>file_calls cs. calls s' = calls s @ cs \<and> list_all is_load file_calls
          \<and> prefix cs (file_calls @ map Call_web_load (WEB_URL_LOAD_TARGETS (ct E))))"
  using assms unfolding load_data_sources_def
proof (cases rule: bindE_cases)
  case (raised e)
  from recursive_file_check_only_loads [OF raised(1)] obtain fc where
    "world s' = world s" "log s' = log s" "calls s' = calls s @ fc" "list_all is_load fc"
    by (auto simp add: only_loads_def)
  then show ?thesis by (auto intro!: exI [of _ fc])
next
  case (returned fd s1)
  from recursive_file_check_only_loads [OF returned(1)] obtain fc where
    a: "world s1 = world s" "log s1 = log s" "calls s1 = calls s @ fc" "list_all is_load fc"
    by (auto simp add: only_loads_def)
  from returned(2) show ?thesis
  proof (cases rule: bindE_cases)
    case (raised e)
    from web_loop_any [OF raised(1)] obtain cs where
      "world s' = world s1" "log s' = log s1" "calls s' = calls s1 @ cs"
      "prefix cs (map Call_web_load (WEB_URL_LOAD_TARGETS (ct E)))"
      by blast
    with a show ?thesis by (auto intro!: exI [of _ fc])
  next
    case (returned wd s2)
    from web_loop_any [OF returned(1)] obtain cs where
      "world s2 = world s1" "log s2 = log s1" "calls s2 = calls s1 @ cs"
      "prefix cs (map Call_web_load (WEB_URL_LOAD_TARGETS (ct E)))"
      by blast
    with a returned(2) show ?thesis by (auto simp add: returnE_def intro!: exI [of _ fc])
  qed
qed

lemma does_prepare_rest:
  "does (bindE (logger_info (Msg_documents_loaded n)) (\<lambda>_.
     bindE (reading Call_OpenAIEmbeddings (OpenAIEmbeddings (lc E))) (\<lambda>embeddings.
     bindE (reading (Call_CharacterTextSplitter (CHUNK_SIZE (ct E)) (CHUNK_OVERLAP (ct E)) [CHR 0x0A])
              (\<lambda>_. CharacterTextSplitter (lc E) (CHUNK_SIZE (ct E)) (CHUNK_OVERLAP (ct E)) [CHR 0x0A]))
           (\<lambda>text_splitter.
     bindE (reading (Call_split_documents docs_all)
              (\<lambda>_. split_documents (lc E) text_splitter docs_all)) (\<lambda>splitted_docs.
     bindE (logger_info (Msg_documents_after_split (length splitted_docs))) (\<lambda>_.
     returnE (embeddings, splitted_docs)))))))
   ([] @ [Call_OpenAIEmbeddings] @
    [Call_CharacterTextSplitter (CHUNK_SIZE (ct E)) (CHUNK_OVERLAP (ct E)) [CHR 0x0A]] @
    [Call_split_documents docs_all] @ [] @ [])"
  by (intro does_bindE does_logger_info does_reading does_returnE)

lemma process_rag_prepare_any:
  assumes "process_rag_prepare E p s = (r, s1)"
  shows "\<exists>file_calls normalized cs. calls s1 = calls s @ cs \<and> list_all is_load file_calls
     \<and> prefix cs ([Call_makedirs p] @ file_calls
          @ map Call_web_load (WEB_URL_LOAD_TARGETS (ct E))
          @ [Call_OpenAIEmbeddings,
             Call_CharacterTextSplitter (CHUNK_SIZE (ct E)) (CHUNK_OVERLAP (ct E)) [CHR 0x0A],
             Call_split_documents normalized])"
  using assms unfolding process_rag_prepare_def
proof (cases rule: bindE_cases)
  case (raised e)
  from changing_calls [OF raised(1)] have x: "calls s1 = calls s @ [Call_makedirs p]" by simp
  show ?thesis
    apply (rule exI [of _ "[]"], rule exI [of _ "[]"], rule exI [of _ "[Call_makedirs p]"])
    using x apply simp
    done
next
  case (returned u sa)
  from changing_calls [OF returned(1)] have a: "calls sa = calls s @ [Call_makedirs p]" by simp
  from returned(2) show ?thesis
  proof (cases rule: bindE_cases)
    case (raised e)
    then show ?thesis by (simp add: logger_info_def)
  next
    case (returned u' sb)
    then have b: "calls sb = calls sa" by (auto simp add: logger_info_def)
    from returned(2) show ?thesis
    proof (cases rule: bindE_cases)
      case (raised e)
      from load_data_sources_any [OF raised(1)] obtain fc cs where
        x: "calls s1 = calls sb @ cs" "list_all is_load fc"
        "prefix cs (fc @ map Call_web_load (WEB_URL_LOAD_TARGETS (ct E)))"
        by blast
      show ?thesis
        apply (rule exI [of _ fc])
        apply (rule exI [of _ "[]"], rule exI [of _ "Call_makedirs p # cs"])
        using a b x prefix_prefix [OF x(3), of "[Call_OpenAIEmbeddings,
             Call_CharacterTextSplitter (CHUNK_SIZE (ct E)) (CHUNK_OVERLAP (ct E)) [CHR 0x0A],
             Call_split_documents []]"] apply simp
        done
    next
      case (returned docs sc)
      from load_data_sources_calls [OF returned(1)] obtain fc where
        c: "calls sc = calls sb @ fc @ map Call_web_load (WEB_URL_LOAD_TARGETS (ct E))"
           "list_all is_load fc"
        by blast
      from returned(2) have
        "bindE (logger_info (Msg_documents_loaded (length docs))) (\<lambda>_.
     bindE (reading Call_OpenAIEmbeddings (OpenAIEmbeddings (lc E))) (\<lambda>embeddings.
     bindE (reading (Call_CharacterTextSplitter (CHUNK_SIZE (ct E)) (CHUNK_OVERLAP (ct E)) [CHR 0x0A])
              (\<lambda>_. CharacterTextSplitter (lc E) (CHUNK_SIZE (ct E)) (CHUNK_OVERLAP (ct E)) [CHR 0x0A]))
           (\<lambda>text_splitter.
     bindE (reading (Call_split_documents (map (adjust_document (lib E)) docs))
              (\<lambda>_. split_documents (lc E) text_splitter (map (adjust_document (lib E)) docs))) (\<lambda>splitted_docs.
     bindE (logger_info (Msg_documents_after_split (length splitted_docs))) (\<lambda>_.
     returnE (embeddings, splitted_docs)))))) sc = (r, s1)"
        by (simp add: Let_def)
      from doesD [OF does_prepare_rest this] obtain cs where
        d: "calls s1 = calls sc @ cs"
           "prefix cs [Call_OpenAIEmbeddings,
             Call_CharacterTextSplitter (CHUNK_SIZE (ct E)) (CHUNK_OVERLAP (ct E)) [CHR 0x0A],
             Call_split_documents (map (adjust_document (lib E)) docs)]"
        by (cases r) auto
      show ?thesis
        apply (rule exI [of _ fc])
        apply (rule exI [of _ "map (adjust_document (lib E)) docs"],
               rule exI [of _ "Call_makedirs p # fc @ map Call_web_load (WEB_URL_LOAD_TARGETS (ct E)) @ cs"])
        using a b c d apply simp
        done
    qed
  qed
qed

lemma process_rag_prepare_results:
  assumes "process_rag_prepare E p s = (Inr (embeddings, chunks), s1)"
  shows "\<exists>file_docs web_results text_splitter normalized file_calls.
      os_makedirs (os E) p (world s) = (Inr (), world s1)
    \<and> fst (recursive_file_check (recursion_limit E) E (RAG_TOP_FOLDER_PATH (ct E)) []
             (s\<lparr>world := world s1, log := log s @ [(INFO, Msg_persist_directory p)],
                calls := calls s @ [Call_makedirs p]\<rparr>)) = Inr file_docs
    \<and> map (\<lambda>url. WebBaseLoader_load (lc E) url (world s1)) (WEB_URL_LOAD_TARGETS (ct E)) = map Inr web_results
    \<and> OpenAIEmbeddings (lc E) (world s1) = Inr embeddings
    \<and> CharacterTextSplitter (lc E) (CHUNK_SIZE (ct E)) (CHUNK_OVERLAP (ct E)) [CHR 0x0A] = Inr text_splitter
    \<and> list_all2 (normalized_from (lib E)) (file_docs @ concat web_results) normalized
    \<and> split_documents (lc E) text_splitter normalized = Inr chunks
    \<and> calls s1 = calls s @ [Call_makedirs p] @ file_calls
          @ map Call_web_load (WEB_URL_LOAD_TARGETS (ct E))
          @ [Call_OpenAIEmbeddings,
             Call_CharacterTextSplitter (CHUNK_SIZE (ct E)) (CHUNK_OVERLAP (ct E)) [CHR 0x0A],
             Call_split_documents normalized]
    \<and> list_all is_load file_calls"
proof -
  from assms obtain u sa sb docs sc where
    mk: "changing (Call_makedirs p) (os_makedirs (os E) p) s = (Inr u, sa)"
    and lg: "logger_info (Msg_persist_directory p) sa = (Inr (), sb)"
    and ld: "load_data_sources E sb = (Inr docs, sc)"
    and rest: "bindE (logger_info (Msg_documents_loaded (length docs))) (\<lambda>_.
     let docs_all = map (adjust_document (lib E)) docs in
     bindE (reading Call_OpenAIEmbeddings (OpenAIEmbeddings (lc E))) (\<lambda>embeddings.
     bindE (reading (Call_CharacterTextSplitter (CHUNK_SIZE (ct E)) (CHUNK_OVERLAP (ct E)) [CHR 0x0A])
              (\<lambda>_. CharacterTextSplitter (lc E) (CHUNK_SIZE (ct E)) (CHUNK_OVERLAP (ct E)) [CHR 0x0A]))
           (\<lambda>text_splitter.
     bindE (reading (Call_split_documents docs_all)
              (\<lambda>_. split_documents (lc E) text_splitter docs_all)) (\<lambda>splitted_docs.
     bindE (logger_info (Msg_documents_after_split (length splitted_docs))) (\<lambda>_.
     returnE (embeddings, splitted_docs)))))) sc = (Inr (embeddings, chunks), s1)"
    unfolding process_rag_prepare_def bindE_Inr by auto
  from mk obtain w1 where a: "os_makedirs (os E) p (world s) = (Inr (), w1)"
      "sa = s\<lparr>world := w1, calls := calls s @ [Call_makedirs p]\<rparr>"
    by (auto simp add: changing_def split: prod.splits)
  from lg have b: "sb = sa\<lparr>log := log sa @ [(INFO, Msg_persist_directory p)]\<rparr>"
    by (auto simp add: logger_info_def)
  from a(2) b have sb: "sb = s\<lparr>world := w1, log := log s @ [(INFO, Msg_persist_directory p)],
                calls := calls s @ [Call_makedirs p]\<rparr>"
    by simp
  from load_data_sources_results [OF ld] obtain file_docs web_results file_calls where
    c: "fst (recursive_file_check (recursion_limit E) E (RAG_TOP_FOLDER_PATH (ct E)) [] sb) = Inr file_docs"
       "map (\<lambda>url. WebBaseLoader_load (lc E) url (world sb)) (WEB_URL_LOAD_TARGETS (ct E)) = map Inr web_results"
       "docs = file_docs @ concat web_results"
       "world sc = world sb"
       "calls sc = calls sb @ file_calls @ map Call_web_load (WEB_URL_LOAD_TARGETS (ct E))"
       "list_all is_load file_calls"
    by blast
  from rest obtain text_splitter where
    d: "world s1 = world sc"
       "OpenAIEmbeddings (lc E) (world sc) = Inr embeddings"
       "CharacterTextSplitter (lc E) (CHUNK_SIZE (ct E)) (CHUNK_OVERLAP (ct E)) [CHR 0x0A] = Inr text_splitter"
       "split_documents (lc E) text_splitter (map (adjust_document (lib E)) docs) = Inr chunks"
       "calls s1 = calls sc @ [Call_OpenAIEmbeddings,
             Call_CharacterTextSplitter (CHUNK_SIZE (ct E)) (CHUNK_OVERLAP (ct E)) [CHR 0x0A],
             Call_split_documents (map (adjust_document (lib E)) docs)]"
    unfolding bindE_Inr Let_def
    by (auto simp add: logger_info_def reading_def returnE_def)
  have w: "world sb = w1" "calls sb = calls s @ [Call_makedirs p]"
    by (simp_all add: sb)
  have e: "world s1 = w1" using d(1) c(4) w(1) by simp
  have n: "list_all2 (normalized_from (lib E)) (file_docs @ concat web_results)
             (map (adjust_document (lib E)) docs)"
    unfolding c(3) by (rule adjust_documents_normalized)
  show ?thesis
    apply (rule exI [of _ file_docs], rule exI [of _ web_results], rule exI [of _ text_splitter],
           rule exI [of _ "map (adjust_document (lib E)) docs"], rule exI [of _ file_calls])
    using a(1) c d n w e sb by simp
qed

lemma process_rag_build_results:
  assumes present: "os_path_exists (os E) p (world s1)"
    and run: "process_rag_build E p embeddings chunks s1 = (Inr retriever, s2)"
  shows "\<exists>w2 w3 db w4.
      shutil_rmtree (os E) p (world s1) = (Inr (), w2)
    \<and> os_makedirs (os E) p w2 = (Inr (), w3)
    \<and> Chroma_from_documents (lc E) chunks embeddings p w3 = (Inr db, w4)
    \<and> Chroma_persist (lc E) db w4 = (Inr (), world s2)
    \<and> as_retriever (lc E) db (SEARCH_K (ct E)) = Inr retriever
    \<and> calls s2 = calls s1 @ build_calls True p chunks (SEARCH_K (ct E))"
  using run present unfolding process_rag_build_def bindE_Inr
  apply (clarsimp simp add: query_def build_calls_def)
  apply (auto simp add: bindE_Inr changing_def reading_def logger_info_def logger_error_def returnE_def
         query_raising_def split: if_splits prod.splits)
  done

lemma pipeline_calls_split:
  "pipeline_calls E p file_calls normalized chunks =
     ([Call_makedirs p] @ file_calls
          @ map Call_web_load (WEB_URL_LOAD_TARGETS (ct E))
          @ [Call_OpenAIEmbeddings,
             Call_CharacterTextSplitter (CHUNK_SIZE (ct E)) (CHUNK_OVERLAP (ct E)) [CHR 0x0A],
             Call_split_documents normalized])
     @ build_calls True p chunks (SEARCH_K (ct E))"
  by (simp add: pipeline_calls_def build_calls_def)

lemma process_rag_prepare_raised:
  "process_rag_prepare E p s = (Inl e, s1) \<Longrightarrow> process_rag E p s = (Inl e, s1)"
  by (simp add: process_rag_def bindE_def)

lemma process_rag_calls_prefix:
  assumes post: "\<forall>w w'. os_makedirs (os E) p w = (Inr (), w') \<longrightarrow> os_path_exists (os E) p w'"
    and run: "process_rag E p s = (r, s')"
  shows "\<exists>file_calls normalized chunks cs.
      calls s' = calls s @ cs \<and> list_all is_load file_calls
    \<and> prefix cs (pipeline_calls E p file_calls normalized chunks)"
proof -
  obtain r1 s1 where prep: "process_rag_prepare E p s = (r1, s1)"
    by (cases "process_rag_prepare E p s")
  show ?thesis
  proof (cases r1)
    case (Inl e)
    with prep run have s': "s' = s1" by (simp add: process_rag_prepare_raised)
    from process_rag_prepare_any [OF prep] obtain fc n cs where
      x: "calls s1 = calls s @ cs" "list_all is_load fc"
         "prefix cs ([Call_makedirs p] @ fc
          @ map Call_web_load (WEB_URL_LOAD_TARGETS (ct E))
          @ [Call_OpenAIEmbeddings,
             Call_CharacterTextSplitter (CHUNK_SIZE (ct E)) (CHUNK_OVERLAP (ct E)) [CHR 0x0A],
             Call_split_documents n])"
      by blast
    have "prefix cs (pipeline_calls E p fc n [])"
      unfolding pipeline_calls_split by (rule prefix_prefix [OF x(3)])
    with x s' show ?thesis by blast
  next
    case (Inr ec)
    obtain embeddings chunks where ec: "ec = (embeddings, chunks)" by (cases ec)
    note prep' = prep [unfolded Inr ec]
    from process_rag_prepare_results [OF prep'] obtain n fc where
      a: "os_makedirs (os E) p (world s) = (Inr (), world s1)"
         "calls s1 = calls s @ [Call_makedirs p] @ fc
          @ map Call_web_load (WEB_URL_LOAD_TARGETS (ct E))
          @ [Call_OpenAIEmbeddings,
             Call_CharacterTextSplitter (CHUNK_SIZE (ct E)) (CHUNK_OVERLAP (ct E)) [CHR 0x0A],
             Call_split_documents n]"
         "list_all is_load fc"
      by blast
    from post a(1) have present: "os_path_exists (os E) p (world s1)" by blast
    obtain r2 s2 where build: "process_rag_build E p embeddings chunks s1 = (r2, s2)"
      by (cases "process_rag_build E p embeddings chunks s1")
    have "calls (snd (process_rag E p s)) = calls s2"
      unfolding process_rag_after_prepare [OF prep'] build by (cases r2) simp_all
    with run have c: "calls s' = calls s2" by simp
    from process_rag_build_any [OF build] present obtain cs2 where
      b: "calls s2 = calls s1 @ cs2" "prefix cs2 (build_calls True p chunks (SEARCH_K (ct E)))"
      by (cases r2) auto
    have "prefix (([Call_makedirs p] @ fc
          @ map Call_web_load (WEB_URL_LOAD_TARGETS (ct E))
          @ [Call_OpenAIEmbeddings,
             Call_CharacterTextSplitter (CHUNK_SIZE (ct E)) (CHUNK_OVERLAP (ct E)) [CHR 0x0A],
             Call_split_documents n]) @ cs2) (pipeline_calls E p fc n chunks)"
      unfolding pipeline_calls_split using b(2) by simp
    moreover have "calls s' = calls s @ (([Call_makedirs p] @ fc
          @ map Call_web_load (WEB_URL_LOAD_TARGETS (ct E))
          @ [Call_OpenAIEmbeddings,
             Call_CharacterTextSplitter (CHUNK_SIZE (ct E)) (CHUNK_OVERLAP (ct E)) [CHR 0x0A],
             Call_split_documents n]) @ cs2)"
      using a(2) b(1) c by simp
    ultimately show ?thesis using a(3) by blast
  qed
qed

lemma process_rag_returned:
  assumes post: "\<forall>w w'. os_makedirs (os E) p w = (Inr (), w') \<longrightarrow> os_path_exists (os E) p w'"
    and run: "process_rag E p s = (Inr retriever, s')"
  shows "\<exists>w1 file_docs web_results embeddings text_splitter normalized chunks w2 w3 db w4 file_calls.
      os_makedirs (os E) p (world s) = (Inr (), w1)
    \<and> fst (recursive_file_check (recursion_limit E) E (RAG_TOP_FOLDER_PATH (ct E)) []
             (s\<lparr>world := w1, log := log s @ [(INFO, Msg_persist_directory p)],
                calls := calls s @ [Call_makedirs p]\<rparr>)) = Inr file_docs
    \<and> map (\<lambda>url. WebBaseLoader_load (lc E) url w1) (WEB_URL_LOAD_TARGETS (ct E)) = map Inr web_results
    \<and> list_all2 (normalized_from (lib E)) (file_docs @ concat web_results) normalized
    \<and> OpenAIEmbeddings (lc E) w1 = Inr embeddings
    \<and> CharacterTextSplitter (lc E) (CHUNK_SIZE (ct E)) (CHUNK_OVERLAP (ct E)) [CHR 0x0A] = Inr text_splitter
    \<and> split_documents (lc E) text_splitter normalized = Inr chunks
    \<and> shutil_rmtree (os E) p w1 = (Inr (), w2)
    \<and> os_makedirs (os E) p w2 = (Inr (), w3)
    \<and> Chroma_from_documents (lc E) chunks embeddings p w3 = (Inr db, w4)
    \<and> Chroma_persist (lc E) db w4 = (Inr (), world s')
    \<and> as_retriever (lc E) db (SEARCH_K (ct E)) = Inr retriever
    \<and> list_all is_load file_calls
    \<and> calls s' = calls s @ pipeline_calls E p file_calls normalized chunks"
proof -
  from run obtain embeddings chunks s1 where
    prep: "process_rag_prepare E p s = (Inr (embeddings, chunks), s1)"
    and build: "process_rag_build E p embeddings chunks s1 = (Inr retriever, s')"
    by (rule process_rag_Inr)
  from process_rag_prepare_results [OF prep] obtain file_docs web_results text_splitter normalized file_calls where
    a: "os_makedirs (os E) p (world s) = (Inr (), world s1)"
       "fst (recursive_file_check (recursion_limit E) E (RAG_TOP_FOLDER_PATH (ct E)) []
             (s\<lparr>world := world s1, log := log s @ [(INFO, Msg_persist_directory p)],
                calls := calls s @ [Call_makedirs p]\<rparr>)) = Inr file_docs"
       "map (\<lambda>url. WebBaseLoader_load (lc E) url (world s1)) (WEB_URL_LOAD_TARGETS (ct E)) = map Inr web_results"
       "OpenAIEmbeddings (lc E) (world s1) = Inr embeddings"
       "CharacterTextSplitter (lc E) (CHUNK_SIZE (ct E)) (CHUNK_OVERLAP (ct E)) [CHR 0x0A] = Inr text_splitter"
       "list_all2 (normalized_from (lib E)) (file_docs @ concat web_results) normalized"
       "split_documents (lc E) text_splitter normalized = Inr chunks"
       "calls s1 = calls s @ [Call_makedirs p] @ file_calls
          @ map Call_web_load (WEB_URL_LOAD_TARGETS (ct E))
          @ [Call_OpenAIEmbeddings,
             Call_CharacterTextSplitter (CHUNK_SIZE (ct E)) (CHUNK_OVERLAP (ct E)) [CHR 0x0A],
             Call_split_documents normalized]"
       "list_all is_load file_calls"
    by blast
  from post a(1) have present: "os_path_exists (os E) p (world s1)" by blast
  from process_rag_build_results [OF present build] obtain w2 w3 db w4 where
    b: "shutil_rmtree (os E) p (world s1) = (Inr (), w2)"
       "os_makedirs (os E) p w2 = (Inr (), w3)"
       "Chroma_from_documents (lc E) chunks embeddings p w3 = (Inr db, w4)"
       "Chroma_persist (lc E) db w4 = (Inr (), world s')"
       "as_retriever (lc E) db (SEARCH_K (ct E)) = Inr retriever"
       "calls s' = calls s1 @ build_calls True p chunks (SEARCH_K (ct E))"
    by blast
  have c: "calls s' = calls s @ pipeline_calls E p file_calls normalized chunks"
    unfolding pipeline_calls_split using a(8) b(6) by simp
  show ?thesis
    apply (rule exI [of _ "world s1"], rule exI [of _ file_docs], rule exI [of _ web_results],
           rule exI [of _ embeddings], rule exI [of _ text_splitter], rule exI [of _ normalized],
           rule exI [of _ chunks], rule exI [of _ w2], rule exI [of _ w3], rule exI [of _ db],
           rule exI [of _ w4], rule exI [of _ file_calls])
    using a b c apply simp
    done
qed

section \<open>Runs in the small world\<close>

lemma disk_makedirs_exists:
  "\<forall>w w'. os_makedirs (os disk_env) p w = (Inr (), w') \<longrightarrow> os_path_exists (os disk_env) p w'"
  by (auto simp add: disk_env_simps disk_os_def disk_makedirs_def disk_exists_def map_add_def split: if_splits)

lemma prepare_corpus:
  "fst (process_rag_prepare disk_env ''chroma_db'' (start corpus)) = Inr (Embeddings, corpus_chunks)"
  by code_simp

lemma prepare_failing:
  "fst (process_rag_prepare failing_env ''chroma_db'' (start corpus)) = Inr (Embeddings, corpus_chunks)"
  by code_simp

lemma build_failing:
  "fst (process_rag_build failing_env ''chroma_db'' Embeddings corpus_chunks
          (snd (process_rag_prepare failing_env ''chroma_db'' (start corpus))))
     = Inl (Exn ''embedding request failed'')"
  by code_simp

section \<open>Runs in the Windows world\<close>

lemma windows_makedirs_exists:
  "\<forall>w w'. os_makedirs (os windows_env) p w = (Inr (), w') \<longrightarrow> os_path_exists (os windows_env) p w'"
  by (auto simp add: windows_env_def disk_os_def disk_makedirs_def disk_exists_def map_add_def
        split: if_splits)

lemma no_key_makedirs_exists:
  "\<forall>w w'. os_makedirs (os no_key_env) p w = (Inr (), w') \<longrightarrow> os_path_exists (os no_key_env) p w'"
  by (auto simp add: no_key_env_def windows_env_def disk_os_def disk_makedirs_def disk_exists_def
        map_add_def split: if_splits)

lemma run_windows:
  "fst (process_rag windows_env ''chroma_db'' (start windows_corpus)) =
     Inr (Retriever (Store ''chroma_db'' windows_chunks) 5)"
  by code_simp

lemma calls_windows:
  "calls (snd (process_rag windows_env ''chroma_db'' (start windows_corpus))) =
     [Call_makedirs ''chroma_db'', Call_load notes_path, Call_load table_path,
      Call_web_load ''https://example.com/about'', Call_web_load ''https://example.com/faq'',
      Call_OpenAIEmbeddings, Call_CharacterTextSplitter 500 50 [CHR 0x0A],
      Call_split_documents windows_normalized,
      Call_rmtree ''chroma_db'', Call_makedirs ''chroma_db'',
      Call_from_documents windows_chunks ''chroma_db'', Call_persist, Call_as_retriever 5]"
  by code_simp

lemma run_no_key:
  "fst (process_rag no_key_env ''chroma_db'' (start windows_corpus)) = Inl (Exn ''no API key'')"
  by code_simp

lemma calls_no_key:
  "calls (snd (process_rag no_key_env ''chroma_db'' (start windows_corpus))) =
     [Call_makedirs ''chroma_db'', Call_load notes_path, Call_load table_path,
      Call_web_load ''https://example.com/about'', Call_web_load ''https://example.com/faq'',
      Call_OpenAIEmbeddings]"
  by code_simp

section \<open>The order of the pipeline\<close>

text \<open>
  Claim C1. Take \<^verbatim>\<open>os.makedirs\<close> to leave the directory in existence when it returns.
  Then for every run of \<open>process_rag\<close>, whether it returns or raises, the calls it has
  made are an initial part of \<open>pipeline_calls\<close>: nothing is called out of the order
  create the directory, load the files, load the web pages in the order of
  \<^verbatim>\<open>WEB_URL_LOAD_TARGETS\<close>, make the embedding model and the splitter, split, remove the
  directory and create it again, build the store, persist it, ask for the retriever.
  When the run returns, the calls are all of them, and each step has worked on what the
  step before produced: the directory was created in the world the run started in; the
  documents are those the walker returned for \<^verbatim>\<open>RAG_TOP_FOLDER_PATH\<close> followed by those
  the web loader returned for each URL; what was split is these documents, each
  \<open>normalized_from\<close> the loaded one; the chunks are what the splitter, made with
  \<^verbatim>\<open>CHUNK_SIZE\<close>, \<^verbatim>\<open>CHUNK_OVERLAP\<close> and the newline separator, returned for them; the
  directory was removed and created again before the store was built from these chunks
  with the embedding model in that directory; the store was persisted; and the value
  returned is the retriever that this store gave for \<^verbatim>\<open>k = SEARCH_K\<close>.
\<close>

theorem process_rag_order:
  assumes post: "\<forall>w w'. os_makedirs (os E) p w = (Inr (), w') \<longrightarrow> os_path_exists (os E) p w'"
    and run: "process_rag E p s = (r, s')"
  shows "(\<exists>file_calls normalized chunks cs.
            calls s' = calls s @ cs \<and> list_all is_load file_calls
          \<and> prefix cs (pipeline_calls E p file_calls normalized chunks))
    \<and> (\<forall>retriever. r = Inr retriever \<longrightarrow>
         (\<exists>w1 file_docs web_results embeddings text_splitter normalized chunks w2 w3 db w4 file_calls.
            os_makedirs (os E) p (world s) = (Inr (), w1)
          \<and> fst (recursive_file_check (recursion_limit E) E (RAG_TOP_FOLDER_PATH (ct E)) []
                   (s\<lparr>world := w1, log := log s @ [(INFO, Msg_persist_directory p)],
                      calls := calls s @ [Call_makedirs p]\<rparr>)) = Inr file_docs
          \<and> map (\<lambda>url. WebBaseLoader_load (lc E) url w1) (WEB_URL_LOAD_TARGETS (ct E)) = map Inr web_results
          \<and> list_all2 (normalized_from (lib E)) (file_docs @ concat web_results) normalized
          \<and> OpenAIEmbeddings (lc E) w1 = Inr embeddings
          \<and> CharacterTextSplitter (lc E) (CHUNK_SIZE (ct E)) (CHUNK_OVERLAP (ct E)) [CHR 0x0A] = Inr text_splitter
          \<and> split_documents (lc E) text_splitter normalized = Inr chunks
          \<and> shutil_rmtree (os E) p w1 = (Inr (), w2)
          \<and> os_makedirs (os E) p w2 = (Inr (), w3)
          \<and> Chroma_from_documents (lc E) chunks embeddings p w3 = (Inr db, w4)
          \<and> Chroma_persist (lc E) db w4 = (Inr (), world s')
          \<and> as_retriever (lc E) db (SEARCH_K (ct E)) = Inr retriever
          \<and> list_all is_load file_calls
          \<and> calls s' = calls s @ pipeline_calls E p file_calls normalized chunks))"
proof (intro conjI allI impI)
  show "\<exists>file_calls normalized chunks cs.
            calls s' = calls s @ cs \<and> list_all is_load file_calls
          \<and> prefix cs (pipeline_calls E p file_calls normalized chunks)"
    using post run by (rule process_rag_calls_prefix)
next
  fix retriever
  assume "r = Inr retriever"
  with run have "process_rag E p s = (Inr retriever, s')" by simp
  with post show "\<exists>w1 file_docs web_results embeddings text_splitter normalized chunks w2 w3 db w4 file_calls.
            os_makedirs (os E) p (world s) = (Inr (), w1)
          \<and> fst (recursive_file_check (recursion_limit E) E (RAG_TOP_FOLDER_PATH (ct E)) []
                   (s\<lparr>world := w1, log := log s @ [(INFO, Msg_persist_directory p)],
                      calls := calls s @ [Call_makedirs p]\<rparr>)) = Inr file_docs
          \<and> map (\<lambda>url. WebBaseLoader_load (lc E) url w1) (WEB_URL_LOAD_TARGETS (ct E)) = map Inr web_results
          \<and> list_all2 (normalized_from (lib E)) (file_docs @ concat web_results) normalized
          \<and> OpenAIEmbeddings (lc E) w1 = Inr embeddings
          \<and> CharacterTextSplitter (lc E) (CHUNK_SIZE (ct E)) (CHUNK_OVERLAP (ct E)) [CHR 0x0A] = Inr text_splitter
          \<and> split_documents (lc E) text_splitter normalized = Inr chunks
          \<and> shutil_rmtree (os E) p w1 = (Inr (), w2)
          \<and> os_makedirs (os E) p w2 = (Inr (), w3)
          \<and> Chroma_from_documents (lc E) chunks embeddings p w3 = (Inr db, w4)
          \<and> Chroma_persist (lc E) db w4 = (Inr (), world s')
          \<and> as_retriever (lc E) db (SEARCH_K (ct E)) = Inr retriever
          \<and> list_all is_load file_calls
          \<and> calls s' = calls s @ pipeline_calls E p file_calls normalized chunks"
    by (rule process_rag_returned)
qed

theorem process_rag_order_witness:
  "fst (process_rag windows_env ''chroma_db'' (start windows_corpus)) =
     Inr (Retriever (Store ''chroma_db'' windows_chunks) 5)
   \<and> calls (snd (process_rag windows_env ''chroma_db'' (start windows_corpus))) =
       [Call_makedirs ''chroma_db'', Call_load notes_path, Call_load table_path,
        Call_web_load ''https://example.com/about'', Call_web_load ''https://example.com/faq'',
        Call_OpenAIEmbeddings, Call_CharacterTextSplitter 500 50 [CHR 0x0A],
        Call_split_documents windows_normalized,
        Call_rmtree ''chroma_db'', Call_makedirs ''chroma_db'',
        Call_from_documents windows_chunks ''chroma_db'', Call_persist, Call_as_retriever 5]
   \<and> (\<exists>file_docs web_results normalized chunks file_calls.
          list_all2 (normalized_from (lib windows_env)) (file_docs @ concat web_results) normalized
        \<and> map (\<lambda>url. WebBaseLoader_load (lc windows_env) url
                        (world (start windows_corpus)\<lparr>dirs := dirs windows_corpus @ [(''chroma_db'', [])]\<rparr>))
              (WEB_URL_LOAD_TARGETS (ct windows_env)) = map Inr web_results
        \<and> calls (snd (process_rag windows_env ''chroma_db'' (start windows_corpus))) =
            calls (start windows_corpus)
              @ pipeline_calls windows_env ''chroma_db'' file_calls normalized chunks)
   \<and> fst (process_rag no_key_env ''chroma_db'' (start windows_corpus)) = Inl (Exn ''no API key'')
   \<and> calls (snd (process_rag no_key_env ''chroma_db'' (start windows_corpus))) =
       [Call_makedirs ''chroma_db'', Call_load notes_path, Call_load table_path,
        Call_web_load ''https://example.com/about'', Call_web_load ''https://example.com/faq'',
        Call_OpenAIEmbeddings]
   \<and> (\<exists>file_calls normalized chunks cs.
          calls (snd (process_rag no_key_env ''chroma_db'' (start windows_corpus))) =
            calls (start windows_corpus) @ cs
        \<and> list_all is_load file_calls
        \<and> prefix cs (pipeline_calls no_key_env ''chroma_db'' file_calls normalized chunks))"
proof -
  have run: "process_rag windows_env ''chroma_db'' (start windows_corpus) =
      (Inr (Retriever (Store ''chroma_db'' windows_chunks) 5),
       snd (process_rag windows_env ''chroma_db'' (start windows_corpus)))"
    using run_windows by (simp add: prod_eq_iff)
  have raised: "process_rag no_key_env ''chroma_db'' (start windows_corpus) =
      (Inl (Exn ''no API key''), snd (process_rag no_key_env ''chroma_db'' (start windows_corpus)))"
    using run_no_key by (simp add: prod_eq_iff)
  have mk: "os_makedirs (os windows_env) ''chroma_db'' (world (start windows_corpus)) =
      (Inr (), (world (start windows_corpus))\<lparr>dirs := dirs windows_corpus @ [(''chroma_db'', [])]\<rparr>)"
    by code_simp
  note returned = process_rag_order [OF windows_makedirs_exists run, THEN conjunct2, rule_format, OF refl]
  note any = process_rag_order [OF no_key_makedirs_exists raised, THEN conjunct1]
  from returned mk have third: "\<exists>file_docs web_results normalized chunks file_calls.
          list_all2 (normalized_from (lib windows_env)) (file_docs @ concat web_results) normalized
        \<and> map (\<lambda>url. WebBaseLoader_load (lc windows_env) url
                        (world (start windows_corpus)\<lparr>dirs := dirs windows_corpus @ [(''chroma_db'', [])]\<rparr>))
              (WEB_URL_LOAD_TARGETS (ct windows_env)) = map Inr web_results
        \<and> calls (snd (process_rag windows_env ''chroma_db'' (start windows_corpus))) =
            calls (start windows_corpus)
              @ pipeline_calls windows_env ''chroma_db'' file_calls normalized chunks"
    by (elim exE conjE) (simp, blast)
  show ?thesis
    by (intro conjI run_windows calls_windows third run_no_key calls_no_key any)
qed

section \<open>The destructive rebuild\<close>

text \<open>
  The statement of claim C2 as it stands fails: in a world where the persistence
  directory is listed empty, and in one where it does not exist, the run calls
  \<^verbatim>\<open>shutil.rmtree\<close> on it all the same. The test at line 75 is
  \<^verbatim>\<open>os.path.exists(persist_directory)\<close>, and line 46 has created the directory.
\<close>

theorem process_rag_rebuild_counterexample:
  "disk_listdir ''chroma_db'' corpus_empty_store = Inr []
   \<and> Call_rmtree ''chroma_db'' \<in> set (calls (snd (process_rag disk_env ''chroma_db'' (start corpus_empty_store))))
   \<and> \<not> disk_exists ''chroma_db'' corpus
   \<and> Call_rmtree ''chroma_db'' \<in> set (calls (snd (process_rag disk_env ''chroma_db'' (start corpus))))"
  by code_simp

text \<open>
  Claim C2, amended. Take \<^verbatim>\<open>os.makedirs\<close> to leave the directory in existence when it
  returns. Then every run that reaches the \<^verbatim>\<open>try\<close> block calls \<^verbatim>\<open>shutil.rmtree\<close> on the
  persistence directory first, whatever the directory holds, and when that call returns
  the next call is \<^verbatim>\<open>os.makedirs\<close> on the same path.
\<close>

theorem process_rag_rebuild_unconditional:
  assumes post: "\<forall>w w'. os_makedirs (os E) p w = (Inr (), w') \<longrightarrow> os_path_exists (os E) p w'"
    and prep: "process_rag_prepare E p s = (Inr (embeddings, chunks), s1)"
  shows "\<exists>cs. calls (snd (process_rag E p s)) = calls s1 @ Call_rmtree p # cs
          \<and> (\<forall>w2. shutil_rmtree (os E) p (world s1) = (Inr (), w2) \<longrightarrow> (\<exists>cs'. cs = Call_makedirs p # cs'))"
proof -
  from process_rag_prepare_Inr [OF prep] post have present: "os_path_exists (os E) p (world s1)"
    by blast
  obtain r s2 where build: "process_rag_build E p embeddings chunks s1 = (r, s2)"
    by (cases "process_rag_build E p embeddings chunks s1")
  have "calls (snd (process_rag E p s)) = calls s2"
    unfolding process_rag_after_prepare [OF prep] build by (cases r) simp_all
  with process_rag_build_rmtree_first [OF present build] show ?thesis by simp
qed

theorem process_rag_rebuild_unconditional_witness:
  "\<exists>cs. calls (snd (process_rag disk_env ''chroma_db'' (start corpus))) =
      calls (snd (process_rag_prepare disk_env ''chroma_db'' (start corpus)))
        @ Call_rmtree ''chroma_db'' # Call_makedirs ''chroma_db'' # cs"
proof -
  have prep: "process_rag_prepare disk_env ''chroma_db'' (start corpus) =
      (Inr (Embeddings, corpus_chunks), snd (process_rag_prepare disk_env ''chroma_db'' (start corpus)))"
    using prepare_corpus by (simp add: prod_eq_iff)
  have ok: "shutil_rmtree (os disk_env) ''chroma_db''
              (world (snd (process_rag_prepare disk_env ''chroma_db'' (start corpus)))) =
            (Inr (), corpus)"
    by code_simp
  from process_rag_rebuild_unconditional [OF disk_makedirs_exists prep] obtain cs where
    first: "calls (snd (process_rag disk_env ''chroma_db'' (start corpus))) =
      calls (snd (process_rag_prepare disk_env ''chroma_db'' (start corpus))) @ Call_rmtree ''chroma_db'' # cs"
    and next_call: "\<forall>w2. shutil_rmtree (os disk_env) ''chroma_db''
              (world (snd (process_rag_prepare disk_env ''chroma_db'' (start corpus)))) = (Inr (), w2)
           \<longrightarrow> (\<exists>cs'. cs = Call_makedirs ''chroma_db'' # cs')"
    by (elim exE conjE)
  from next_call ok obtain cs' where "cs = Call_makedirs ''chroma_db'' # cs'"
    by (elim allE impE exE)
  with first show ?thesis by simp
qed

section \<open>Failure inside the try block\<close>

text \<open>
  Claim C8. When the steps before the \<^verbatim>\<open>try\<close> have succeeded and the body of the \<^verbatim>\<open>try\<close>
  raises \<open>e\<close> (in the rebuild, in building the store, in persisting it or after),
  \<open>process_rag\<close> raises the same \<open>e\<close>; the state is the one the body left, with one
  \<^verbatim>\<open>ERROR\<close> record carrying \<open>e\<close> added to the log, and that is the only store-creation
  error record the run has written; the calls made in the \<^verbatim>\<open>try\<close> are a prefix, without
  repetition, of the calls of a run without failure, so nothing is tried again.
\<close>

theorem process_rag_build_failure:
  assumes prep: "process_rag_prepare E p s = (Inr (embeddings, chunks), s1)"
    and fail: "process_rag_build E p embeddings chunks s1 = (Inl e, s2)"
  shows "process_rag E p s = (Inl e, s2\<lparr>log := log s2 @ [(ERROR, Msg_store_creation_error e)]\<rparr>)
    \<and> filter is_creation_error (log (snd (process_rag E p s))) =
        filter is_creation_error (log s) @ [(ERROR, Msg_store_creation_error e)]
    \<and> (\<exists>cs. calls (snd (process_rag E p s)) = calls s1 @ cs \<and> distinct cs
          \<and> prefix cs (build_calls (os_path_exists (os E) p (world s1)) p chunks (SEARCH_K (ct E))))"
proof -
  have res: "process_rag E p s = (Inl e, s2\<lparr>log := log s2 @ [(ERROR, Msg_store_creation_error e)]\<rparr>)"
    unfolding process_rag_after_prepare [OF prep] fail by simp
  from process_rag_prepare_Inr [OF prep]
  have l1: "filter is_creation_error (log s1) = filter is_creation_error (log s)"
    by auto
  from process_rag_build_any [OF fail] obtain cs ls where
    b: "calls s2 = calls s1 @ cs" "log s2 = log s1 @ ls" "\<not> list_ex is_creation_error ls"
       "prefix cs (build_calls (os_path_exists (os E) p (world s1)) p chunks (SEARCH_K (ct E)))"
    by auto
  have d: "distinct (build_calls (os_path_exists (os E) p (world s1)) p chunks (SEARCH_K (ct E)))"
    by (simp add: build_calls_def)
  from b(4) d have dc: "distinct cs" by (auto simp add: prefix_def)
  from b(3) have "filter is_creation_error ls = []"
    by (simp add: list_ex_iff filter_empty_conv)
  with l1 b(2) have "filter is_creation_error (log s2) = filter is_creation_error (log s)" by simp
  with res b(1) b(4) dc show ?thesis by simp
qed

theorem process_rag_build_failure_witness:
  "process_rag failing_env ''chroma_db'' (start corpus) =
     (Inl (Exn ''embedding request failed''),
      \<lparr>world = corpus_empty_store,
       log = [(INFO, Msg_persist_directory ''chroma_db''), (INFO, Msg_documents_loaded 2),
              (INFO, Msg_documents_after_split 2), (INFO, Msg_store_deleted),
              (ERROR, Msg_store_creation_error (Exn ''embedding request failed''))],
       calls = [Call_makedirs ''chroma_db'', Call_load ''data/notes.txt'', Call_load ''data/table.csv'',
          Call_OpenAIEmbeddings, Call_CharacterTextSplitter 500 50 [CHR 0x0A],
          Call_split_documents corpus_chunks,
          Call_rmtree ''chroma_db'', Call_makedirs ''chroma_db'',
          Call_from_documents corpus_chunks ''chroma_db'']\<rparr>)
   \<and> filter is_creation_error (log (snd (process_rag failing_env ''chroma_db'' (start corpus)))) =
       [(ERROR, Msg_store_creation_error (Exn ''embedding request failed''))]"
proof -
  have prep: "process_rag_prepare failing_env ''chroma_db'' (start corpus) =
      (Inr (Embeddings, corpus_chunks), snd (process_rag_prepare failing_env ''chroma_db'' (start corpus)))"
    using prepare_failing by (simp add: prod_eq_iff)
  have fail: "process_rag_build failing_env ''chroma_db'' Embeddings corpus_chunks
          (snd (process_rag_prepare failing_env ''chroma_db'' (start corpus))) =
      (Inl (Exn ''embedding request failed''),
       snd (process_rag_build failing_env ''chroma_db'' Embeddings corpus_chunks
          (snd (process_rag_prepare failing_env ''chroma_db'' (start corpus)))))"
    using build_failing by (simp add: prod_eq_iff)
  have state: "(snd (process_rag_build failing_env ''chroma_db'' Embeddings corpus_chunks
          (snd (process_rag_prepare failing_env ''chroma_db'' (start corpus)))))
        \<lparr>log := log (snd (process_rag_build failing_env ''chroma_db'' Embeddings corpus_chunks
          (snd (process_rag_prepare failing_env ''chroma_db'' (start corpus))))) @
            [(ERROR, Msg_store_creation_error (Exn ''embedding request failed''))]\<rparr> =
      \<lparr>world = corpus_empty_store,
       log = [(INFO, Msg_persist_directory ''chroma_db''), (INFO, Msg_documents_loaded 2),
              (INFO, Msg_documents_after_split 2), (INFO, Msg_store_deleted),
              (ERROR, Msg_store_creation_error (Exn ''embedding request failed''))],
       calls = [Call_makedirs ''chroma_db'', Call_load ''data/notes.txt'', Call_load ''data/table.csv'',
          Call_OpenAIEmbeddings, Call_CharacterTextSplitter 500 50 [CHR 0x0A],
          Call_split_documents corpus_chunks,
          Call_rmtree ''chroma_db'', Call_makedirs ''chroma_db'',
          Call_from_documents corpus_chunks ''chroma_db'']\<rparr>"
    by code_simp
  have empty: "filter is_creation_error (log (start corpus)) = []"
    by (simp add: start_def)
  from process_rag_build_failure [OF prep fail] show ?thesis
    unfolding state empty by simp
qed

end
